theory Spec2Isabelle
  imports Main "HOL-Library.Sublist" "HOL-Library.AList"
begin

section \<open>Text: substring test, lines of a file\<close>

text \<open>
  Python's \<^verbatim>\<open>pattern in line\<close> on strings: the pattern occurs at some position of the
  line. The empty pattern occurs in every string, the empty one included.
\<close>

fun str_contains :: "string \<Rightarrow> string \<Rightarrow> bool" where
  "str_contains pat [] = (pat = [])"
| "str_contains pat (c # s) = (prefix pat (c # s) \<or> str_contains pat s)"

text \<open>
  The scripts open every file in text mode with the default \<^verbatim>\<open>newline=None\<close>. What is
  read then comes with universal newlines: a carriage return followed by a line feed, and
  a carriage return alone, each reach the program as one line feed. What is written has
  every line feed replaced by \<^verbatim>\<open>os.linesep\<close>; the model is of a POSIX system, where that is
  the line feed itself, so the text is written as it is given.
\<close>

fun universal_newlines :: "string \<Rightarrow> string" where
  "universal_newlines [] = []"
| "universal_newlines [c] = (if c = CHR 0x0D then [CHR 0x0A] else [c])"
| "universal_newlines (c # d # cs) =
     (if c = CHR 0x0D \<and> d = CHR 0x0A then CHR 0x0A # universal_newlines cs
      else if c = CHR 0x0D then CHR 0x0A # universal_newlines (d # cs)
      else c # universal_newlines (d # cs))"

text \<open>\<^verbatim>\<open>f.read()\<close> of a file that holds the characters \<open>raw\<close>.\<close>

definition read_text :: "string \<Rightarrow> string" where
  "read_text raw = universal_newlines raw"

text \<open>
  \<^verbatim>\<open>f.readlines()\<close> of a file that holds the characters \<open>raw\<close>: the text that
  \<^verbatim>\<open>f.read()\<close> gives, cut after every line feed, each line keeping its line feed; a last
  line without one is kept as it is. \<^verbatim>\<open>f.writelines(lines)\<close> writes the concatenation of
  the elements, adding nothing.
\<close>

fun split_lines :: "string \<Rightarrow> string \<Rightarrow> string list" where
  "split_lines acc [] = (if acc = [] then [] else [acc])"
| "split_lines acc (c # cs) =
     (if c = CHR 0x0A then (acc @ [c]) # split_lines [] cs else split_lines (acc @ [c]) cs)"

definition readlines :: "string \<Rightarrow> string list" where
  "readlines raw = split_lines [] (read_text raw)"

definition writelines :: "string list \<Rightarrow> string" where
  "writelines lines = concat lines"

section \<open>Line filters (clean\_vapor\_project.py, rollback\_redoc\_setup.py)\<close>

text \<open>\<^verbatim>\<open>any(pattern in line for pattern in patterns_to_remove)\<close>\<close>

fun any_pattern_in :: "string list \<Rightarrow> string \<Rightarrow> bool" where
  "any_pattern_in [] line = False"
| "any_pattern_in (pattern # patterns) line =
     (str_contains pattern line \<or> any_pattern_in patterns line)"

text \<open>
  \<^verbatim>\<open>cleaned_lines = [line for line in lines if not any(...)]\<close> of \<^verbatim>\<open>clean_file\<close>.
\<close>

fun cleaned_lines :: "string list \<Rightarrow> string list \<Rightarrow> string list" where
  "cleaned_lines [] patterns_to_remove = []"
| "cleaned_lines (line # lines) patterns_to_remove =
     (if \<not> any_pattern_in patterns_to_remove line
      then line # cleaned_lines lines patterns_to_remove
      else cleaned_lines lines patterns_to_remove)"

text \<open>
  \<^verbatim>\<open>[line for line in content if "openapi.yml" not in line and "docs" not in line]\<close>
  of \<^verbatim>\<open>rollback_redoc_setup\<close>.
\<close>

fun cleaned_content :: "string list \<Rightarrow> string list" where
  "cleaned_content [] = []"
| "cleaned_content (line # content) =
     (if \<not> str_contains ''openapi.yml'' line \<and> \<not> str_contains ''docs'' line
      then line # cleaned_content content
      else cleaned_content content)"

section \<open>Insertion after a marker (setup\_openapiserve.py, setup\_openapimiddleware.py)\<close>

text \<open>
  \<^verbatim>\<open>for i, line in enumerate(lines): if marker in line: ...; break\<close>: the index of the first
  line that contains the marker, counted from \<open>i\<close>; \<open>None\<close> when the loop runs to its
  \<^verbatim>\<open>else\<close>.
\<close>

fun first_match :: "string \<Rightarrow> string list \<Rightarrow> nat \<Rightarrow> nat option" where
  "first_match marker [] i = None"
| "first_match marker (line # lines) i =
     (if str_contains marker line then Some i else first_match marker lines (Suc i))"

text \<open>\<^verbatim>\<open>lines.insert(i, x)\<close> for an index \<open>0 \<le> i\<close>; beyond the end it appends.\<close>

definition list_insert :: "'a list \<Rightarrow> nat \<Rightarrow> 'a \<Rightarrow> 'a list" where
  "list_insert xs i x = take i xs @ [x] @ drop i xs"

text \<open>
  The part of \<^verbatim>\<open>append_to_file\<close> between reading and writing: what becomes of the list
  \<^verbatim>\<open>lines\<close>. \<^verbatim>\<open>if marker:\<close> is Python's truth test: \<^verbatim>\<open>None\<close> (the default) and the
  empty string are both false and take the \<^verbatim>\<open>else\<close> branch.
\<close>

definition insert_content :: "string list \<Rightarrow> string \<Rightarrow> string option \<Rightarrow> string list" where
  "insert_content lines content marker =
     (case marker of
        None \<Rightarrow> lines @ [content @ [CHR 0x0A]]
      | Some m \<Rightarrow>
          if m \<noteq> [] then
            (case first_match m lines 0 of
               Some i \<Rightarrow> list_insert lines (i + 1) (content @ [CHR 0x0A])
             | None \<Rightarrow> lines @ [content @ [CHR 0x0A]])
          else lines @ [content @ [CHR 0x0A]])"

section \<open>List blocks of Package.swift (fix\_nested\_resources.py, fix\_resource\_conflicts.py, fix\_resources.py)\<close>

definition EXCLUDE_FILES :: "string list" where
  "EXCLUDE_FILES =
     [''.build/checkouts/leaf-kit/Sources/LeafKit/Docs.docc'',
      ''.build/checkouts/swift-algorithms/Sources/Algorithms/Documentation.docc'']"

text \<open>The f-string \<^verbatim>\<open>f'        "{exclude}",\n'\<close>.\<close>

definition exclude_line :: "string \<Rightarrow> string" where
  "exclude_line exclude = ''        '' @ [CHR 0x22] @ exclude @ [CHR 0x22] @ '','' @ [CHR 0x0A]"

text \<open>
  The exclusions loop, the same in the three scripts; the second argument is the flag
  \<^verbatim>\<open>exclusions_updated\<close>, the result is what the loop appends to \<^verbatim>\<open>updated_content\<close>.
\<close>

fun exclusions_loop :: "string list \<Rightarrow> bool \<Rightarrow> string list" where
  "exclusions_loop [] exclusions_updated = []"
| "exclusions_loop (line # package_content) exclusions_updated =
     (if str_contains ''exclude: ['' line \<and> \<not> exclusions_updated
      then line # map exclude_line EXCLUDE_FILES @ exclusions_loop package_content True
      else line # exclusions_loop package_content exclusions_updated)"

definition add_exclusions :: "string list \<Rightarrow> string list" where
  "add_exclusions package_content = exclusions_loop package_content False"

definition views_entry :: string where
  "views_entry = ''                .process('' @ [CHR 0x22] @ ''Sources/App/Resources/Views''
                   @ [CHR 0x22] @ ''),'' @ [CHR 0x0A]"

definition openapi_entry :: string where
  "openapi_entry = ''                .process('' @ [CHR 0x22] @ ''Sources/App/Resources/openapi.yml''
                     @ [CHR 0x22] @ ''),'' @ [CHR 0x0A]"

text \<open>
  The resources loop; the three scripts differ in the test that skips a line only, which
  is the first argument. The flag is \<^verbatim>\<open>resources_updated\<close>.
\<close>

fun resources_loop :: "(string \<Rightarrow> bool) \<Rightarrow> string list \<Rightarrow> bool \<Rightarrow> string list" where
  "resources_loop skip [] resources_updated = []"
| "resources_loop skip (line # package_content) resources_updated =
     (if skip line then resources_loop skip package_content resources_updated
      else if str_contains ''resources: ['' line \<and> \<not> resources_updated
      then line # views_entry # openapi_entry # resources_loop skip package_content True
      else line # resources_loop skip package_content resources_updated)"

text \<open>fix\_nested\_resources.py: \<^verbatim>\<open>if ".process(\"Sources/App/Sources/App/Resources" in line\<close>\<close>

definition skip_nested :: "string \<Rightarrow> bool" where
  "skip_nested line =
     str_contains (''.process('' @ [CHR 0x22] @ ''Sources/App/Sources/App/Resources'') line"

text \<open>fix\_resource\_conflicts.py: \<^verbatim>\<open>if ".process(\"Sources/App/Resources" in line\<close>\<close>

definition skip_conflicts :: "string \<Rightarrow> bool" where
  "skip_conflicts line = str_contains (''.process('' @ [CHR 0x22] @ ''Sources/App/Resources'') line"

text \<open>
  fix\_resources.py: \<^verbatim>\<open>if ".process(\"Resources" in line:\<close> and inside it
  \<^verbatim>\<open>if "Resources/Views" in line or "Resources/openapi.yml" in line: continue\<close>
\<close>

definition skip_old :: "string \<Rightarrow> bool" where
  "skip_old line =
     (str_contains (''.process('' @ [CHR 0x22] @ ''Resources'') line \<and>
      (str_contains ''Resources/Views'' line \<or> str_contains ''Resources/openapi.yml'' line))"

definition fix_nested_resources_update :: "string list \<Rightarrow> string list" where
  "fix_nested_resources_update package_content = resources_loop skip_nested package_content False"

definition fix_resource_conflicts_update :: "string list \<Rightarrow> string list" where
  "fix_resource_conflicts_update package_content =
     resources_loop skip_conflicts package_content False"

definition fix_resources_update :: "string list \<Rightarrow> string list" where
  "fix_resources_update package_content = resources_loop skip_old package_content False"

section \<open>The file system\<close>

text \<open>
  A path is the list of its components below the working directory, which is the empty
  path. The file system is an association list from paths to nodes, in the order in
  which a directory scan returns the entries: a regular file with its text, or a directory.
\<close>

type_synonym path = "string list"

datatype node = File string | Dir

type_synonym filesystem = "(path \<times> node) list"

datatype error =
    FileNotFoundError path
  | FileExistsError path
  | NotADirectoryError path
  | IsADirectoryError path
  | ShutilError path

text \<open>\<^verbatim>\<open>os.path.join(a, b)\<close> on strings, and the string of a path below the root string.\<close>

definition join :: "string \<Rightarrow> string \<Rightarrow> string" where
  "join a b =
     (if b \<noteq> [] \<and> hd b = CHR ''/'' then b
      else if a = [] \<or> last a = CHR ''/'' then a @ b
      else a @ ''/'' @ b)"

definition path_str :: "string \<Rightarrow> path \<Rightarrow> string" where
  "path_str root p = foldl join root p"

definition path_exists :: "filesystem \<Rightarrow> path \<Rightarrow> bool" where
  "path_exists fs p = (map_of fs p \<noteq> None)"

definition isdir :: "filesystem \<Rightarrow> path \<Rightarrow> bool" where
  "isdir fs p = (map_of fs p = Some Dir)"

definition isfile :: "filesystem \<Rightarrow> path \<Rightarrow> bool" where
  "isfile fs p = (case map_of fs p of Some (File text) \<Rightarrow> True | _ \<Rightarrow> False)"

text \<open>
  The system resolves a path \<open>p\<close> from the working directory downwards, one component
  after the other; \<open>pre\<close> is the part already passed, which has to be a directory for the
  next component to be looked up in it. The first part that is missing ends the call with
  \<^verbatim>\<open>FileNotFoundError\<close>, the first that is a regular file with \<^verbatim>\<open>NotADirectoryError\<close>;
  both name \<open>p\<close>. \<open>None\<close>: every directory on the way to \<open>p\<close> is there.
\<close>

fun resolve :: "filesystem \<Rightarrow> path \<Rightarrow> path \<Rightarrow> string list \<Rightarrow> error option" where
  "resolve fs p pre [] = None"
| "resolve fs p pre (c # cs) =
     (case map_of fs pre of
        None \<Rightarrow> Some (FileNotFoundError p)
      | Some (File text) \<Rightarrow> Some (NotADirectoryError p)
      | Some Dir \<Rightarrow> resolve fs p (pre @ [c]) cs)"

definition parent_error :: "filesystem \<Rightarrow> path \<Rightarrow> error option" where
  "parent_error fs p = resolve fs p [] p"

text \<open>The exception of a call that needs an entry at \<open>p\<close> and finds none.\<close>

definition missing :: "filesystem \<Rightarrow> path \<Rightarrow> error" where
  "missing fs p = (case parent_error fs p of Some e \<Rightarrow> e | None \<Rightarrow> FileNotFoundError p)"

text \<open>\<^verbatim>\<open>open(p, "r")\<close>: the characters that the file holds.\<close>

definition open_read :: "filesystem \<Rightarrow> path \<Rightarrow> error + string" where
  "open_read fs p =
     (case map_of fs p of
        None \<Rightarrow> Inl (missing fs p)
      | Some Dir \<Rightarrow> Inl (IsADirectoryError p)
      | Some (File text) \<Rightarrow> Inr text)"

text \<open>
  \<^verbatim>\<open>open(p, "w")\<close> followed by \<^verbatim>\<open>write(text)\<close>: the file is created or truncated; every
  directory on the way to it must exist.
\<close>

definition open_write :: "filesystem \<Rightarrow> path \<Rightarrow> string \<Rightarrow> error + filesystem" where
  "open_write fs p text =
     (if p = [] \<or> isdir fs p then Inl (IsADirectoryError p)
      else case parent_error fs p of
        Some e \<Rightarrow> Inl e
      | None \<Rightarrow> Inr (AList.update p (File text) fs))"

text \<open>\<^verbatim>\<open>os.remove(p)\<close>: removes a regular file.\<close>

definition os_remove :: "filesystem \<Rightarrow> path \<Rightarrow> error + filesystem" where
  "os_remove fs p =
     (case map_of fs p of
        None \<Rightarrow> Inl (missing fs p)
      | Some Dir \<Rightarrow> Inl (IsADirectoryError p)
      | Some (File text) \<Rightarrow> Inr (AList.delete p fs))"

text \<open>The entries directly inside a directory, by name, in scan order.\<close>

definition children :: "filesystem \<Rightarrow> path \<Rightarrow> (string \<times> node) list" where
  "children fs dir =
     map (\<lambda>(p, n). (last p, n)) (filter (\<lambda>(p, n). p \<noteq> [] \<and> butlast p = dir) fs)"

text \<open>\<^verbatim>\<open>os.listdir(p)\<close>.\<close>

definition listdir :: "filesystem \<Rightarrow> path \<Rightarrow> error + string list" where
  "listdir fs p =
     (case map_of fs p of
        None \<Rightarrow> Inl (missing fs p)
      | Some (File text) \<Rightarrow> Inl (NotADirectoryError p)
      | Some Dir \<Rightarrow> Inr (map fst (children fs p)))"

text \<open>
  The scan that \<^verbatim>\<open>os.walk\<close> makes of one directory: the names of its subdirectories and of
  its other entries; \<open>None\<close> when the scan fails, which \<^verbatim>\<open>os.walk\<close> ignores.
\<close>

definition scandir :: "filesystem \<Rightarrow> path \<Rightarrow> (string list \<times> string list) option" where
  "scandir fs dir =
     (if isdir fs dir
      then Some (map fst (filter (\<lambda>(name, n). n = Dir) (children fs dir)),
                 map fst (filter (\<lambda>(name, n). n \<noteq> Dir) (children fs dir)))
      else None)"

text \<open>
  \<^verbatim>\<open>os.makedirs(p, exist_ok=True)\<close>: every missing directory on the way to \<open>p\<close> is
  created, \<open>p\<close> included. When \<open>p\<close> itself is a regular file, \<^verbatim>\<open>FileExistsError\<close> is
  raised; when a regular file stands on the way to \<open>p\<close>, making the directory next below
  it raises \<^verbatim>\<open>NotADirectoryError\<close>. The second argument is the part of the path already
  passed.
\<close>

fun makedirs_from :: "filesystem \<Rightarrow> path \<Rightarrow> string list \<Rightarrow> error + filesystem" where
  "makedirs_from fs pre [] = Inr fs"
| "makedirs_from fs pre (c # cs) =
     (case map_of fs (pre @ [c]) of
        Some Dir \<Rightarrow> makedirs_from fs (pre @ [c]) cs
      | Some (File text) \<Rightarrow>
          Inl (if cs = [] then FileExistsError (pre @ [c])
               else NotADirectoryError (pre @ [c, hd cs]))
      | None \<Rightarrow> makedirs_from (AList.update (pre @ [c]) Dir fs) (pre @ [c]) cs)"

definition makedirs :: "filesystem \<Rightarrow> path \<Rightarrow> error + filesystem" where
  "makedirs fs p = makedirs_from fs [] p"

text \<open>
  \<^verbatim>\<open>shutil.move(src, dst)\<close>. When \<open>dst\<close> is a directory the entry goes into it under its
  own name, and \<^verbatim>\<open>shutil.Error\<close> is raised when that name is taken there; moving a
  directory onto itself does nothing. Otherwise the entry goes to \<open>dst\<close> itself. Then
  \<^verbatim>\<open>os.rename(src, real_dst)\<close> is tried, and when it fails the entry is copied and the
  original removed, which is \<open>move_to\<close>:

  \<^item> a regular file replaces a regular file at \<open>real_dst\<close> without a word; every directory
    on the way to \<open>real_dst\<close> must exist, for the renaming and for the copy alike;

  \<^item> a directory moves with all below it. \<^verbatim>\<open>shutil.Error\<close> is raised when \<open>real_dst\<close> lies
    inside it, \<^verbatim>\<open>FileExistsError\<close> when a regular file stands at \<open>real_dst\<close>. When
    directories on the way to \<open>real_dst\<close> are missing, the renaming fails and the copy,
    \<^verbatim>\<open>shutil.copytree\<close>, makes them.
\<close>

definition rename_tree :: "path \<Rightarrow> path \<Rightarrow> filesystem \<Rightarrow> filesystem" where
  "rename_tree src dst fs =
     map (\<lambda>(p, n). if prefix src p then (dst @ drop (length src) p, n) else (p, n)) fs"

definition move_to :: "filesystem \<Rightarrow> path \<Rightarrow> path \<Rightarrow> error + filesystem" where
  "move_to fs src real_dst =
     (case map_of fs src of
        None \<Rightarrow> Inl (missing fs src)
      | Some (File text) \<Rightarrow>
          (case parent_error fs real_dst of
             Some e \<Rightarrow> Inl e
           | None \<Rightarrow> Inr (AList.update real_dst (File text) (AList.delete src fs)))
      | Some Dir \<Rightarrow>
          if prefix src real_dst then Inl (ShutilError real_dst)
          else if path_exists fs real_dst then Inl (FileExistsError real_dst)
          else (case parent_error fs real_dst of
                  None \<Rightarrow> Inr (rename_tree src real_dst fs)
                | Some (NotADirectoryError p) \<Rightarrow> Inl (NotADirectoryError p)
                | Some e \<Rightarrow>
                    (case makedirs fs (butlast real_dst) of
                       Inl e1 \<Rightarrow> Inl e1
                     | Inr fs1 \<Rightarrow> Inr (rename_tree src real_dst fs1))))"

definition move :: "filesystem \<Rightarrow> path \<Rightarrow> path \<Rightarrow> error + filesystem" where
  "move fs src dst =
     (if isdir fs dst then
        (if src = dst then Inr fs
         else if src = [] then Inl (ShutilError dst)
         else if path_exists fs (dst @ [last src]) then Inl (ShutilError (dst @ [last src]))
         else move_to fs src (dst @ [last src]))
      else move_to fs src dst)"

text \<open>\<^verbatim>\<open>shutil.rmtree(p)\<close>: the directory and all below it.\<close>

definition rmtree :: "filesystem \<Rightarrow> path \<Rightarrow> error + filesystem" where
  "rmtree fs p =
     (case map_of fs p of
        None \<Rightarrow> Inl (missing fs p)
      | Some (File text) \<Rightarrow> Inl (NotADirectoryError p)
      | Some Dir \<Rightarrow> Inr (filter (\<lambda>(q, n). \<not> prefix p q) fs))"

text \<open>
  \<^verbatim>\<open>os.path.relpath(root, start)\<close> for a \<open>root\<close> that \<^verbatim>\<open>os.walk(start)\<close> yields: it lies at or
  below \<open>start\<close>, and the relative path is what follows \<open>start\<close> (empty for \<open>start\<close>
  itself, where Python writes \<^verbatim>\<open>.\<close>).
\<close>

definition relpath :: "path \<Rightarrow> path \<Rightarrow> path" where
  "relpath root start = drop (length start) root"

section \<open>Scripts: results, printed lines, sequencing\<close>

text \<open>
  A statement of a script takes the file system and returns the new one with the lines it
  printed, or the exception that ends the script.
\<close>

type_synonym outcome = "error + filesystem \<times> string list"

definition say :: "string \<Rightarrow> filesystem \<Rightarrow> outcome" where
  "say message fs = Inr (fs, [message])"

fun run_steps :: "(filesystem \<Rightarrow> outcome) list \<Rightarrow> filesystem \<Rightarrow> outcome" where
  "run_steps [] fs = Inr (fs, [])"
| "run_steps (step # steps) fs =
     (case step fs of
        Inl e \<Rightarrow> Inl e
      | Inr (fs1, out1) \<Rightarrow>
          (case run_steps steps fs1 of
             Inl e \<Rightarrow> Inl e
           | Inr (fs2, out2) \<Rightarrow> Inr (fs2, out1 @ out2)))"

section \<open>clean\_vapor\_project.py\<close>

definition clean_file :: "string \<Rightarrow> path \<Rightarrow> string list \<Rightarrow> filesystem \<Rightarrow> outcome" where
  "clean_file base_dir file_path patterns_to_remove fs =
     (if \<not> path_exists fs file_path
      then Inr (fs, [''File not found: '' @ path_str base_dir file_path])
      else case open_read fs file_path of
        Inl e \<Rightarrow> Inl e
      | Inr text \<Rightarrow>
          (case open_write fs file_path
                  (writelines (cleaned_lines (readlines text) patterns_to_remove)) of
             Inl e \<Rightarrow> Inl e
           | Inr fs1 \<Rightarrow> Inr (fs1, [''Cleaned file: '' @ path_str base_dir file_path])))"

text \<open>\<^verbatim>\<open>for file_name in os.listdir(dir): if "Todo" in file_name: os.remove(...); print(...)\<close>\<close>

fun remove_todo :: "string \<Rightarrow> path \<Rightarrow> string list \<Rightarrow> filesystem \<Rightarrow> outcome" where
  "remove_todo base_dir dir [] fs = Inr (fs, [])"
| "remove_todo base_dir dir (file_name # names) fs =
     (if str_contains ''Todo'' file_name then
        (case os_remove fs (dir @ [file_name]) of
           Inl e \<Rightarrow> Inl e
         | Inr fs1 \<Rightarrow>
             (case remove_todo base_dir dir names fs1 of
                Inl e \<Rightarrow> Inl e
              | Inr (fs2, out) \<Rightarrow>
                  Inr (fs2, (''Removed file: '' @ path_str base_dir (dir @ [file_name])) # out)))
      else remove_todo base_dir dir names fs)"

definition remove_default_files :: "string \<Rightarrow> path \<Rightarrow> filesystem \<Rightarrow> outcome" where
  "remove_default_files base_dir dir fs =
     (if path_exists fs dir then
        (case listdir fs dir of
           Inl e \<Rightarrow> Inl e
         | Inr names \<Rightarrow> remove_todo base_dir dir names fs)
      else Inr (fs, []))"

definition clean_vapor_project :: "string \<Rightarrow> filesystem \<Rightarrow> outcome" where
  "clean_vapor_project base_dir =
     run_steps
       [say ''Cleaning routes.swift...'',
        clean_file base_dir [''Sources'', ''App'', ''routes.swift'']
          [''TodoController'', ''register(collection:''],
        say ''Cleaning configure.swift...'',
        clean_file base_dir [''Sources'', ''App'', ''configure.swift'']
          [''CreateTodo'', ''app.migrations.add''],
        say ''Removing default controller files...'',
        remove_default_files base_dir [''Sources'', ''App'', ''Controllers''],
        say ''Removing default migration files...'',
        remove_default_files base_dir [''Sources'', ''App'', ''Migrations''],
        say ''Cleanup completed. Please ensure the project compiles by running:'',
        say ''swift build'']"

section \<open>append\_to\_file (setup\_openapiserve.py, setup\_openapimiddleware.py)\<close>

definition append_to_file :: "filesystem \<Rightarrow> path \<Rightarrow> string \<Rightarrow> string option \<Rightarrow> error + filesystem" where
  "append_to_file fs file_path content marker =
     (if \<not> path_exists fs file_path then open_write fs file_path content
      else case open_read fs file_path of
        Inl e \<Rightarrow> Inl e
      | Inr text \<Rightarrow>
          open_write fs file_path (writelines (insert_content (readlines text) content marker)))"

section \<open>validate\_redoc\_setup.py\<close>

text \<open>
  The list \<^verbatim>\<open>results\<close> at the end of \<^verbatim>\<open>validate_redoc_setup\<close>; the paths are those the
  function builds from the working directory.
\<close>

definition openapi_dir :: path where "openapi_dir = [''Resources'', ''OpenAPI'']"
definition views_dir :: path where "views_dir = [''Resources'', ''Views'']"
definition redoc_assets_dir :: path where "redoc_assets_dir = [''Public'', ''redoc'']"
definition routes_file :: path where "routes_file = [''Sources'', ''App'', ''routes.swift'']"
definition configure_file :: path where "configure_file = [''Sources'', ''App'', ''configure.swift'']"
definition openapi_file :: path where "openapi_file = openapi_dir @ [''openapi.yml'']"
definition redoc_leaf_file :: path where "redoc_leaf_file = views_dir @ [''redoc.leaf'']"
definition redoc_css_file :: path where "redoc_css_file = redoc_assets_dir @ [''redoc.standalone.css'']"
definition redoc_js_file :: path where "redoc_js_file = redoc_assets_dir @ [''redoc.standalone.js'']"

definition check_routes :: "string \<Rightarrow> filesystem \<Rightarrow> string list" where
  "check_routes project_root fs =
     (case map_of fs routes_file of
        Some (File raw) \<Rightarrow>
          (if \<not> str_contains (''app.get('' @ [CHR 0x22] @ ''openapi.yml'' @ [CHR 0x22] @ '')'')
                  (read_text raw)
           then [''Route for '' @ [CHR 0x27] @ ''/openapi.yml'' @ [CHR 0x27] @ '' not found in: ''
                 @ path_str project_root routes_file]
           else []) @
          (if \<not> str_contains (''app.get('' @ [CHR 0x22] @ ''docs'' @ [CHR 0x22] @ '')'') (read_text raw)
           then [''Route for '' @ [CHR 0x27] @ ''/docs'' @ [CHR 0x27] @ '' not found in: ''
                 @ path_str project_root routes_file]
           else [])
      | _ \<Rightarrow> [''Missing file: '' @ path_str project_root routes_file])"

definition check_configure :: "string \<Rightarrow> filesystem \<Rightarrow> string list" where
  "check_configure project_root fs =
     (case map_of fs configure_file of
        Some (File raw) \<Rightarrow>
          (if \<not> str_contains ''app.views.use(.leaf)'' (read_text raw)
           then [''Leaf configuration not found in: '' @ path_str project_root configure_file]
           else [])
      | _ \<Rightarrow> [''Missing file: '' @ path_str project_root configure_file])"

definition validate_results :: "string \<Rightarrow> filesystem \<Rightarrow> string list" where
  "validate_results project_root fs =
     (if \<not> isdir fs openapi_dir
      then [''Missing directory: '' @ path_str project_root openapi_dir] else []) @
     (if \<not> isdir fs views_dir
      then [''Missing directory: '' @ path_str project_root views_dir] else []) @
     (if \<not> isdir fs redoc_assets_dir
      then [''Missing directory: '' @ path_str project_root redoc_assets_dir] else []) @
     (if \<not> isfile fs openapi_file
      then [''Missing file: '' @ path_str project_root openapi_file] else []) @
     (if \<not> isfile fs redoc_leaf_file
      then [''Missing file: '' @ path_str project_root redoc_leaf_file] else []) @
     (if \<not> isfile fs redoc_css_file
      then [''Missing file: '' @ path_str project_root redoc_css_file] else []) @
     (if \<not> isfile fs redoc_js_file
      then [''Missing file: '' @ path_str project_root redoc_js_file] else []) @
     check_routes project_root fs @
     check_configure project_root fs"

text \<open>
  The whole function: it returns nothing and writes nothing, so the file system it leaves
  is the one it was given; what it prints is the report.
\<close>

definition validate_redoc_setup :: "string \<Rightarrow> filesystem \<Rightarrow> filesystem \<times> string list" where
  "validate_redoc_setup project_root fs =
     (let results = validate_results project_root fs in
      (fs,
       if results \<noteq> [] then ''Validation Failed:'' # map (\<lambda>result. ''- '' @ result) results
       else [''Validation Passed: All required files, directories, and configurations are present.'']))"

section \<open>Package.swift steps of the fix scripts\<close>

definition PACKAGE_FILE :: path where "PACKAGE_FILE = [''Package.swift'']"

text \<open>Step 3, with the script's own resources loop as \<open>update\<close>; step 4.\<close>

definition update_package :: "(string list \<Rightarrow> string list) \<Rightarrow> string \<Rightarrow> filesystem \<Rightarrow> outcome" where
  "update_package update ROOT_DIR fs =
     (if path_exists fs PACKAGE_FILE then
        (case open_read fs PACKAGE_FILE of
           Inl e \<Rightarrow> Inl e
         | Inr text \<Rightarrow>
             (case open_write fs PACKAGE_FILE (writelines (update (readlines text))) of
                Inl e \<Rightarrow> Inl e
              | Inr fs1 \<Rightarrow>
                  Inr (fs1, [''Updated '' @ path_str ROOT_DIR PACKAGE_FILE
                             @ '' with correct resource paths.''])))
      else Inr (fs, [''Error: '' @ path_str ROOT_DIR PACKAGE_FILE @ '' does not exist.'']))"

definition exclude_unhandled :: "string \<Rightarrow> filesystem \<Rightarrow> outcome" where
  "exclude_unhandled ROOT_DIR fs =
     (if path_exists fs PACKAGE_FILE then
        (case open_read fs PACKAGE_FILE of
           Inl e \<Rightarrow> Inl e
         | Inr text \<Rightarrow>
             (case open_write fs PACKAGE_FILE (writelines (add_exclusions (readlines text))) of
                Inl e \<Rightarrow> Inl e
              | Inr fs1 \<Rightarrow>
                  Inr (fs1, [''Added exclusions to '' @ path_str ROOT_DIR PACKAGE_FILE @ ''.''])))
      else Inr (fs, [''Error: '' @ path_str ROOT_DIR PACKAGE_FILE @ '' does not exist.'']))"

section \<open>Moving the nested resources (fix\_nested\_resources.py, fix\_resource\_conflicts.py)\<close>

text \<open>
  The body of \<^verbatim>\<open>for file in files\<close> for one directory \<open>walk_root\<close> that the walk of
  \<open>nested\<close> yields: the directory below \<open>resources\<close> is made, the file moved into it.
\<close>

fun move_files :: "path \<Rightarrow> path \<Rightarrow> path \<Rightarrow> string list \<Rightarrow> filesystem \<Rightarrow> error + filesystem" where
  "move_files nested resources walk_root [] fs = Inr fs"
| "move_files nested resources walk_root (file # files) fs =
     (case makedirs fs (resources @ relpath walk_root nested) of
        Inl e \<Rightarrow> Inl e
      | Inr fs1 \<Rightarrow>
          (case move fs1 (walk_root @ [file]) (resources @ relpath walk_root nested @ [file]) of
             Inl e \<Rightarrow> Inl e
           | Inr fs2 \<Rightarrow> move_files nested resources walk_root files fs2))"

text \<open>
  \<^verbatim>\<open>for root, dirs, files in os.walk(...)\<close> with a loop body that uses \<^verbatim>\<open>root\<close> and
  \<^verbatim>\<open>files\<close>. \<^verbatim>\<open>os.walk\<close> keeps a stack of directories still to visit; it scans a directory
  when it takes it from the stack, so it sees what the body has done by then, yields it,
  and puts its subdirectories on the stack, the first on top. A directory whose scan fails
  is passed over. An exception in the body ends the loop.
\<close>

partial_function (option) walk_loop ::
  "(path \<Rightarrow> string list \<Rightarrow> filesystem \<Rightarrow> error + filesystem) \<Rightarrow> filesystem \<Rightarrow> path list
   \<Rightarrow> (error + filesystem) option" where
  "walk_loop body fs stack =
     (case stack of
        [] \<Rightarrow> Some (Inr fs)
      | walk_root # rest \<Rightarrow>
          (case scandir fs walk_root of
             None \<Rightarrow> walk_loop body fs rest
           | Some (dirs, files) \<Rightarrow>
               (case body walk_root files fs of
                  Inl e \<Rightarrow> Some (Inl e)
                | Inr fs1 \<Rightarrow> walk_loop body fs1 (map (\<lambda>d. walk_root @ [d]) dirs @ rest))))"

text \<open>
  Step 2 of both scripts: \<open>nested\<close> is walked and its files moved below \<open>resources\<close>,
  then \<open>sources\<close>, the directory that holds \<open>nested\<close>, is removed. \<open>None\<close> stands for a
  walk that never ends. \<open>prep\<close> is the one word in which the two messages differ.
\<close>

definition move_nested_resources ::
  "string \<Rightarrow> string \<Rightarrow> path \<Rightarrow> path \<Rightarrow> path \<Rightarrow> filesystem \<Rightarrow> outcome option" where
  "move_nested_resources prep ROOT_DIR nested resources sources fs =
     (if path_exists fs nested then
        (case walk_loop (move_files nested resources) fs [nested] of
           None \<Rightarrow> None
         | Some (Inl e) \<Rightarrow> Some (Inl e)
         | Some (Inr fs1) \<Rightarrow>
             (case rmtree fs1 sources of
                Inl e \<Rightarrow> Some (Inl e)
              | Inr fs2 \<Rightarrow>
                  Some (Inr (fs2, [''Moved resources from '' @ path_str ROOT_DIR nested @ '' to ''
                                   @ path_str ROOT_DIR resources @ ''.'']))))
      else Some (Inr (fs, [''No nested resources found '' @ prep @ '' ''
                           @ path_str ROOT_DIR nested @ ''.''])))"

text \<open>fix\_resource\_conflicts.py, with \<^verbatim>\<open>APP_DIR = ROOT_DIR/Sources/App\<close>.\<close>

definition APP_DIR :: path where "APP_DIR = [''Sources'', ''App'']"

definition fix_resource_conflicts_move :: "string \<Rightarrow> filesystem \<Rightarrow> outcome option" where
  "fix_resource_conflicts_move ROOT_DIR fs =
     move_nested_resources ''in'' ROOT_DIR
       (APP_DIR @ [''Sources'', ''App'', ''Resources'']) (APP_DIR @ [''Resources''])
       (APP_DIR @ [''Sources'']) fs"

text \<open>
  fix\_nested\_resources.py, with
  \<^verbatim>\<open>CORRECT_RESOURCES_DIR = ROOT_DIR/Sources/App/Resources\<close>.
\<close>

definition CORRECT_RESOURCES_DIR :: path where
  "CORRECT_RESOURCES_DIR = [''Sources'', ''App'', ''Resources'']"

definition fix_nested_resources_move :: "string \<Rightarrow> filesystem \<Rightarrow> outcome option" where
  "fix_nested_resources_move ROOT_DIR fs =
     move_nested_resources ''at'' ROOT_DIR
       (CORRECT_RESOURCES_DIR @ [''Sources'', ''App'', ''Resources'']) CORRECT_RESOURCES_DIR
       (CORRECT_RESOURCES_DIR @ [''Sources'']) fs"

section \<open>Steps 1 and 2 of the three fix scripts\<close>

text \<open>
  Step 1 of fix\_resource\_conflicts.py and of fix\_nested\_resources.py:
  \<^verbatim>\<open>os.makedirs(VIEWS_DIR, exist_ok=True)\<close>, and step 2 after it.
\<close>

definition VIEWS_DIR :: path where "VIEWS_DIR = APP_DIR @ [''Resources'', ''Views'']"

definition fix_resource_conflicts_steps :: "string \<Rightarrow> filesystem \<Rightarrow> outcome option" where
  "fix_resource_conflicts_steps ROOT_DIR fs =
     (case makedirs fs VIEWS_DIR of
        Inl e \<Rightarrow> Some (Inl e)
      | Inr fs1 \<Rightarrow> fix_resource_conflicts_move ROOT_DIR fs1)"

definition CORRECT_VIEWS_DIR :: path where "CORRECT_VIEWS_DIR = CORRECT_RESOURCES_DIR @ [''Views'']"

definition fix_nested_resources_steps :: "string \<Rightarrow> filesystem \<Rightarrow> outcome option" where
  "fix_nested_resources_steps ROOT_DIR fs =
     (case makedirs fs CORRECT_VIEWS_DIR of
        Inl e \<Rightarrow> Some (Inl e)
      | Inr fs1 \<Rightarrow> fix_nested_resources_move ROOT_DIR fs1)"

text \<open>fix\_resources.py: its paths, and step 2, which moves with \<^verbatim>\<open>shutil.move\<close> alone.\<close>

definition RESOURCES_SRC :: path where "RESOURCES_SRC = [''Resources'']"
definition APP_RESOURCES_DIR :: path where "APP_RESOURCES_DIR = [''Sources'', ''App'', ''Resources'']"
definition VIEWS_SRC :: path where "VIEWS_SRC = RESOURCES_SRC @ [''Views'']"
definition APP_VIEWS_DIR :: path where "APP_VIEWS_DIR = APP_RESOURCES_DIR @ [''Views'']"
definition OPENAPI_SRC :: path where "OPENAPI_SRC = RESOURCES_SRC @ [''openapi.yml'']"
definition OPENAPI_DEST :: path where "OPENAPI_DEST = APP_RESOURCES_DIR @ [''openapi.yml'']"

text \<open>
  \<^verbatim>\<open>for file in os.listdir(VIEWS_SRC): shutil.move(src_file, dest_file)\<close>, the list being
  taken once, before the first move.
\<close>

fun move_each :: "path \<Rightarrow> path \<Rightarrow> string list \<Rightarrow> filesystem \<Rightarrow> error + filesystem" where
  "move_each src_dir dest_dir [] fs = Inr fs"
| "move_each src_dir dest_dir (file # files) fs =
     (case move fs (src_dir @ [file]) (dest_dir @ [file]) of
        Inl e \<Rightarrow> Inl e
      | Inr fs1 \<Rightarrow> move_each src_dir dest_dir files fs1)"

definition move_views :: "string \<Rightarrow> filesystem \<Rightarrow> outcome" where
  "move_views ROOT_DIR fs =
     (if path_exists fs VIEWS_SRC then
        (case listdir fs VIEWS_SRC of
           Inl e \<Rightarrow> Inl e
         | Inr files \<Rightarrow>
             (case move_each VIEWS_SRC APP_VIEWS_DIR files fs of
                Inl e \<Rightarrow> Inl e
              | Inr fs1 \<Rightarrow> Inr (fs1, [''Moved Views to '' @ path_str ROOT_DIR APP_VIEWS_DIR])))
      else Inr (fs, [''Warning: '' @ path_str ROOT_DIR VIEWS_SRC @ '' does not exist.'']))"

definition move_openapi :: "string \<Rightarrow> filesystem \<Rightarrow> outcome" where
  "move_openapi ROOT_DIR fs =
     (if path_exists fs OPENAPI_SRC then
        (case move fs OPENAPI_SRC OPENAPI_DEST of
           Inl e \<Rightarrow> Inl e
         | Inr fs1 \<Rightarrow> Inr (fs1, [''Moved openapi.yml to '' @ path_str ROOT_DIR OPENAPI_DEST]))
      else Inr (fs, [''Warning: '' @ path_str ROOT_DIR OPENAPI_SRC @ '' does not exist.'']))"

definition fix_resources_move :: "string \<Rightarrow> filesystem \<Rightarrow> outcome" where
  "fix_resources_move ROOT_DIR = run_steps [move_views ROOT_DIR, move_openapi ROOT_DIR]"

definition fix_resources_steps :: "string \<Rightarrow> filesystem \<Rightarrow> outcome" where
  "fix_resources_steps ROOT_DIR fs =
     (case makedirs fs APP_VIEWS_DIR of
        Inl e \<Rightarrow> Inl e
      | Inr fs1 \<Rightarrow> fix_resources_move ROOT_DIR fs1)"

section \<open>What the claims speak of\<close>

text \<open>
  Every artifact that \<^verbatim>\<open>validate_redoc_setup\<close> expects is present: the three directories,
  the four files, routes.swift with its two routes, configure.swift with the Leaf line.
\<close>

definition all_present :: "filesystem \<Rightarrow> bool" where
  "all_present fs =
     (isdir fs openapi_dir \<and> isdir fs views_dir \<and> isdir fs redoc_assets_dir
      \<and> isfile fs openapi_file \<and> isfile fs redoc_leaf_file
      \<and> isfile fs redoc_css_file \<and> isfile fs redoc_js_file
      \<and> (\<exists>content. map_of fs routes_file = Some (File content)
            \<and> str_contains (''app.get('' @ [CHR 0x22] @ ''openapi.yml'' @ [CHR 0x22] @ '')'') content
            \<and> str_contains (''app.get('' @ [CHR 0x22] @ ''docs'' @ [CHR 0x22] @ '')'') content)
      \<and> (\<exists>content. map_of fs configure_file = Some (File content)
            \<and> str_contains ''app.views.use(.leaf)'' content))"

text \<open>A project tree in which all of that is present.\<close>

definition valid_tree :: filesystem where
  "valid_tree =
     [([], Dir), ([''Resources''], Dir), ([''Resources'', ''OpenAPI''], Dir),
      ([''Resources'', ''Views''], Dir), ([''Public''], Dir), ([''Public'', ''redoc''], Dir),
      ([''Sources''], Dir), ([''Sources'', ''App''], Dir),
      ([''Resources'', ''OpenAPI'', ''openapi.yml''], File ''openapi: 3.0.0''),
      ([''Resources'', ''Views'', ''redoc.leaf''], File ''<html></html>''),
      ([''Public'', ''redoc'', ''redoc.standalone.css''], File ''body {}''),
      ([''Public'', ''redoc'', ''redoc.standalone.js''], File ''var x;''),
      ([''Sources'', ''App'', ''routes.swift''],
       File (''app.get('' @ [CHR 0x22] @ ''openapi.yml'' @ [CHR 0x22] @ '') { }''
             @ [CHR 0x0A] @ ''app.get('' @ [CHR 0x22] @ ''docs'' @ [CHR 0x22] @ '') { }'')),
      ([''Sources'', ''App'', ''configure.swift''], File ''app.views.use(.leaf)'')]"

text \<open>
  A file system as the scripts can meet it: no path is listed twice, and every entry but
  the working directory lies in a directory that is an entry itself.
\<close>

definition wf_fs :: "filesystem \<Rightarrow> bool" where
  "wf_fs fs = (distinct (map fst fs)
     \<and> (\<forall>p\<in>set (map fst fs). p \<noteq> [] \<longrightarrow> map_of fs (butlast p) = Some Dir))"

text \<open>
  The condition under which the move of the nested resources meets no exception. For
  every entry below \<open>nested\<close>, with its path \<open>rel\<close> relative to \<open>nested\<close>: its place
  \<open>resources @ rel\<close> is not inside \<open>sources\<close>, the directory that is removed at the end; no
  file stands where a directory of the nested tree has to be made; no directory stands
  where a file of the nested tree has to go. A file may stand there.
\<close>

definition mergeable :: "filesystem \<Rightarrow> path \<Rightarrow> path \<Rightarrow> path \<Rightarrow> bool" where
  "mergeable fs nested resources sources =
     (wf_fs fs \<and> isdir fs nested \<and> isdir fs resources \<and> prefix sources nested
      \<and> (\<forall>(p, n)\<in>set fs. prefix nested p \<longrightarrow>
            \<not> prefix sources (resources @ relpath p nested)
            \<and> (n = Dir \<longrightarrow> \<not> isfile fs (resources @ relpath p nested))
            \<and> (n \<noteq> Dir \<longrightarrow> \<not> isdir fs (resources @ relpath p nested))))"

text \<open>
  The directories that the walk still has to visit, with all below them; and what holds
  of the file system \<open>fs\<close> whenever the walk takes the next directory from its stack,
  in terms of the file system \<open>fs0\<close> the walk started from: below the directories still
  to visit nothing has changed; the directories above \<open>N\<close> are in place; every file of a
  directory already visited is at its place below \<open>R\<close>; everything else outside \<open>S\<close> is
  as it was, or is a directory made for a directory of the nested tree.
\<close>

definition pending :: "path list \<Rightarrow> path \<Rightarrow> bool" where
  "pending stack q = (\<exists>s\<in>set stack. prefix s q)"

definition walk_inv :: "filesystem \<Rightarrow> path \<Rightarrow> path \<Rightarrow> path \<Rightarrow> filesystem \<Rightarrow> path list \<Rightarrow> bool" where
  "walk_inv fs0 N R S fs stack =
     (wf_fs fs \<and> map_of fs [] = Some Dir
      \<and> (\<forall>s\<in>set stack. prefix N s \<and> map_of fs0 s = Some Dir)
      \<and> distinct stack
      \<and> (\<forall>s\<in>set stack. \<forall>t\<in>set stack. prefix s t \<longrightarrow> s = t)
      \<and> (\<forall>q. pending stack q \<longrightarrow> map_of fs q = map_of fs0 q)
      \<and> (\<forall>q. prefix q N \<longrightarrow> map_of fs q = Some Dir)
      \<and> (\<forall>r c. map_of fs0 (N @ r) = Some (File c) \<and> \<not> pending stack (N @ r) \<longrightarrow>
            map_of fs (R @ r) = Some (File c))
      \<and> (\<forall>q. \<not> prefix S q
            \<and> \<not> (\<exists>r c. q = R @ r \<and> map_of fs0 (N @ r) = Some (File c) \<and> \<not> pending stack (N @ r)) \<longrightarrow>
            map_of fs q = map_of fs0 q
            \<or> (map_of fs0 q = None \<and> map_of fs q = Some Dir
                \<and> (\<exists>r. q = R @ r \<and> map_of fs0 (N @ r) = Some Dir))))"

text \<open>
  A project of fix\_nested\_resources.py with a file \<^verbatim>\<open>openapi.yml\<close> both in the nested
  resources and at its place in the right ones; a project of fix\_resource\_conflicts.py with
  two nested files and nothing yet in the right resources directory.
\<close>

definition conflict_tree :: filesystem where
  "conflict_tree =
     [([], Dir), ([''Sources''], Dir), ([''Sources'', ''App''], Dir),
      ([''Sources'', ''App'', ''Resources''], Dir),
      ([''Sources'', ''App'', ''Resources'', ''openapi.yml''], File ''old''),
      ([''Sources'', ''App'', ''Resources'', ''Sources''], Dir),
      ([''Sources'', ''App'', ''Resources'', ''Sources'', ''App''], Dir),
      ([''Sources'', ''App'', ''Resources'', ''Sources'', ''App'', ''Resources''], Dir),
      ([''Sources'', ''App'', ''Resources'', ''Sources'', ''App'', ''Resources'', ''openapi.yml''],
       File ''new'')]"

definition nested_tree :: filesystem where
  "nested_tree =
     [([], Dir), ([''Sources''], Dir), ([''Sources'', ''App''], Dir),
      ([''Sources'', ''App'', ''Resources''], Dir),
      ([''Sources'', ''App'', ''Sources''], Dir),
      ([''Sources'', ''App'', ''Sources'', ''App''], Dir),
      ([''Sources'', ''App'', ''Sources'', ''App'', ''Resources''], Dir),
      ([''Sources'', ''App'', ''Sources'', ''App'', ''Resources'', ''openapi.yml''],
       File ''openapi: 3.0.0''),
      ([''Sources'', ''App'', ''Sources'', ''App'', ''Resources'', ''Views''], Dir),
      ([''Sources'', ''App'', ''Sources'', ''App'', ''Resources'', ''Views'', ''redoc.leaf''],
       File ''<html></html>'')]"

text \<open>
  A project of fix\_resource\_conflicts.py that has no right resources directory yet, and
  whose nested resources hold one regular file, named \<^verbatim>\<open>Views\<close>; a project in which a
  regular file stands at the path of the nested resources; a project of fix\_resources.py
  with \<^verbatim>\<open>openapi.yml\<close> and \<^verbatim>\<open>Views/index.leaf\<close> both in the old place and in the new one.
\<close>

definition views_clash_tree :: filesystem where
  "views_clash_tree =
     [([], Dir), ([''Sources''], Dir), ([''Sources'', ''App''], Dir),
      ([''Sources'', ''App'', ''Sources''], Dir),
      ([''Sources'', ''App'', ''Sources'', ''App''], Dir),
      ([''Sources'', ''App'', ''Sources'', ''App'', ''Resources''], Dir),
      ([''Sources'', ''App'', ''Sources'', ''App'', ''Resources'', ''Views''], File ''v'')]"

definition nested_file_tree :: filesystem where
  "nested_file_tree =
     [([], Dir), ([''Sources''], Dir), ([''Sources'', ''App''], Dir),
      ([''Sources'', ''App'', ''Resources''], Dir),
      ([''Sources'', ''App'', ''Sources''], Dir),
      ([''Sources'', ''App'', ''Sources'', ''main.swift''], File ''print()''),
      ([''Sources'', ''App'', ''Sources'', ''App''], Dir),
      ([''Sources'', ''App'', ''Sources'', ''App'', ''Resources''], File ''x'')]"

definition old_resources_tree :: filesystem where
  "old_resources_tree =
     [([], Dir), ([''Resources''], Dir), ([''Resources'', ''Views''], Dir),
      ([''Resources'', ''Views'', ''index.leaf''], File ''new view''),
      ([''Resources'', ''openapi.yml''], File ''new''),
      ([''Sources''], Dir), ([''Sources'', ''App''], Dir),
      ([''Sources'', ''App'', ''Resources''], Dir),
      ([''Sources'', ''App'', ''Resources'', ''Views''], Dir),
      ([''Sources'', ''App'', ''Resources'', ''Views'', ''index.leaf''], File ''old view''),
      ([''Sources'', ''App'', ''Resources'', ''openapi.yml''], File ''old'')]"

text \<open>
  A project of fix\_nested\_resources.py after step 1: the nested resources, with one
  file, lie inside the right resources directory, which holds no file of its own.
\<close>

definition nested_inside_tree :: filesystem where
  "nested_inside_tree =
     [([], Dir), ([''Sources''], Dir), ([''Sources'', ''App''], Dir),
      ([''Sources'', ''App'', ''Resources''], Dir),
      ([''Sources'', ''App'', ''Resources'', ''Views''], Dir),
      ([''Sources'', ''App'', ''Resources'', ''Sources''], Dir),
      ([''Sources'', ''App'', ''Resources'', ''Sources'', ''App''], Dir),
      ([''Sources'', ''App'', ''Resources'', ''Sources'', ''App'', ''Resources''], Dir),
      ([''Sources'', ''App'', ''Resources'', ''Sources'', ''App'', ''Resources'', ''openapi.yml''],
       File ''openapi: 3.0.0'')]"

section \<open>Facts about the text functions\<close>

lemma str_contains_iff: "str_contains pat s \<longleftrightarrow> (\<exists>pre post. s = pre @ pat @ post)"
proof (induction s)
  case Nil
  then show ?case by auto
next
  case (Cons c s)
  show ?case
  proof
    assume "str_contains pat (c # s)"
    then consider "prefix pat (c # s)" | "str_contains pat s" by auto
    then show "\<exists>pre post. c # s = pre @ pat @ post"
    proof cases
      case 1
      then obtain post where "c # s = pat @ post" by (auto simp: prefix_def)
      then have "c # s = [] @ pat @ post" by simp
      then show ?thesis by blast
    next
      case 2
      with Cons.IH obtain pre post where "s = pre @ pat @ post" by blast
      then have "c # s = (c # pre) @ pat @ post" by simp
      then show ?thesis by blast
    qed
  next
    assume "\<exists>pre post. c # s = pre @ pat @ post"
    then obtain pre post where eq: "c # s = pre @ pat @ post" by blast
    show "str_contains pat (c # s)"
    proof (cases pre)
      case Nil
      with eq have "prefix pat (c # s)" by (simp add: prefix_def)
      then show ?thesis by simp
    next
      case (Cons a pre')
      with eq have "s = pre' @ pat @ post" by simp
      with Cons.IH have "str_contains pat s" by blast
      then show ?thesis by simp
    qed
  qed
qed

lemma any_pattern_in_iff: "any_pattern_in ps line \<longleftrightarrow> (\<exists>p\<in>set ps. str_contains p line)"
  by (induction ps) auto

lemma cleaned_lines_filter:
  "cleaned_lines ls ps = filter (\<lambda>line. \<not> any_pattern_in ps line) ls"
  by (induction ls) auto

lemma cleaned_content_filter:
  "cleaned_content ls =
     filter (\<lambda>line. \<not> str_contains ''openapi.yml'' line \<and> \<not> str_contains ''docs'' line) ls"
  by (induction ls) auto

section \<open>PatternFilter\<close>

text \<open>
  C6. For every document \<open>D\<close> and every list of patterns \<open>P\<close>, the filter of
  \<^verbatim>\<open>clean_file\<close> returns exactly the lines of \<open>D\<close> in which no pattern of \<open>P\<close> occurs as
  a substring, in their order and unchanged; with no pattern the result is \<open>D\<close>. The
  filter of \<^verbatim>\<open>rollback_redoc_setup\<close> is the same filter with the patterns
  \<^verbatim>\<open>openapi.yml\<close> and \<^verbatim>\<open>docs\<close>. Characters are compared as they are, so case matters.
\<close>

theorem pattern_filter_exact:
  "cleaned_lines D P = filter (\<lambda>line. \<forall>p\<in>set P. \<not> (\<exists>pre post. line = pre @ p @ post)) D
   \<and> cleaned_lines D [] = D
   \<and> cleaned_content D = cleaned_lines D [''openapi.yml'', ''docs'']"
  by (simp add: cleaned_lines_filter cleaned_content_filter any_pattern_in_iff str_contains_iff)

text \<open>The scenario of the specification, through the theorem.\<close>

theorem pattern_filter_exact_witness:
  \<open>cleaned_lines [''import Vapor'', ''app.get("todo")'', ''app.migrations.add(CreateTodo())'']
      [''CreateTodo'', ''register(collection:'']
    = filter (\<lambda>line. \<forall>p\<in>set [''CreateTodo'', ''register(collection:''].
                \<not> (\<exists>pre post. line = pre @ p @ post))
        [''import Vapor'', ''app.get("todo")'', ''app.migrations.add(CreateTodo())'']
   \<and> cleaned_lines [''import Vapor'', ''app.get("todo")'', ''app.migrations.add(CreateTodo())'']
      [''CreateTodo'', ''register(collection:'']
    = [''import Vapor'', ''app.get("todo")'']\<close>
  using pattern_filter_exact
    [of "[''import Vapor'', ''app.get('' @ [CHR 0x22] @ ''todo'' @ [CHR 0x22] @ '')'',
          ''app.migrations.add(CreateTodo())'']"
        "[''CreateTodo'', ''register(collection:'']"]
  by simp

section \<open>MarkerInsert\<close>

lemma first_match_None: "(first_match m ls i = None) \<longleftrightarrow> (\<forall>l\<in>set ls. \<not> str_contains m l)"
  by (induction ls arbitrary: i) auto

lemma first_match_split:
  "\<forall>l\<in>set pre. \<not> str_contains m l \<Longrightarrow> str_contains m line \<Longrightarrow>
   first_match m (pre @ line # post) i = Some (i + length pre)"
  by (induction pre arbitrary: i) auto

text \<open>
  C4, as the code has it. For every document, every content and every marker that is not
  empty: when \<open>line\<close> is the first line that contains the marker, the content, with a line
  break after it, is placed right after \<open>line\<close>, and later lines that contain the marker
  play no part; when no line contains the marker, it is appended at the end. With the
  empty marker, which every line contains, and with no marker, it is appended at the end
  as well.
\<close>

theorem marker_insert_first_match:
  "(m \<noteq> [] \<and> (\<forall>l\<in>set pre. \<not> str_contains m l) \<and> str_contains m line \<longrightarrow>
      insert_content (pre @ line # post) content (Some m)
        = pre @ line # (content @ [CHR 0x0A]) # post)
   \<and> (m = [] \<or> (\<forall>l\<in>set lines. \<not> str_contains m l) \<longrightarrow>
      insert_content lines content (Some m) = lines @ [content @ [CHR 0x0A]])
   \<and> insert_content lines content None = lines @ [content @ [CHR 0x0A]]"
proof (intro conjI impI)
  assume a: "m \<noteq> [] \<and> (\<forall>l\<in>set pre. \<not> str_contains m l) \<and> str_contains m line"
  then have "first_match m (pre @ line # post) 0 = Some (length pre)"
    using first_match_split [of pre m line post 0] by simp
  with a show "insert_content (pre @ line # post) content (Some m)
        = pre @ line # (content @ [CHR 0x0A]) # post"
    by (simp add: insert_content_def list_insert_def)
next
  assume "m = [] \<or> (\<forall>l\<in>set lines. \<not> str_contains m l)"
  then show "insert_content lines content (Some m) = lines @ [content @ [CHR 0x0A]]"
    using first_match_None [of m lines 0] by (auto simp: insert_content_def)
next
  show "insert_content lines content None = lines @ [content @ [CHR 0x0A]]"
    by (simp add: insert_content_def)
qed

theorem marker_insert_first_match_witness:
  "insert_content [''import Vapor\<newline>'', ''public func configure(_ app: Application) {\<newline>'', ''}\<newline>'']
     ''    // added'' (Some ''public func configure'')
   = [''import Vapor\<newline>'', ''public func configure(_ app: Application) {\<newline>'', ''    // added\<newline>'', ''}\<newline>'']
   \<and> insert_content [''import Vapor\<newline>'', ''}\<newline>''] ''    // added'' (Some ''public func configure'')
   = [''import Vapor\<newline>'', ''}\<newline>'', ''    // added\<newline>'']"
  using marker_insert_first_match [of "''public func configure''" "[''import Vapor\<newline>'']"
      "''public func configure(_ app: Application) {\<newline>''" "[''}\<newline>'']" "''    // added''"
      "[''import Vapor\<newline>'', ''}\<newline>'']"]
  by simp

text \<open>
  C4 as stated fails for the empty marker: the first line contains it, and the content
  goes to the end, not after the first line.
\<close>

theorem marker_insert_empty_marker_counterexample:
  "str_contains '''' ''a\<newline>''
   \<and> insert_content [''a\<newline>'', ''b\<newline>''] ''X'' (Some '''') = [''a\<newline>'', ''b\<newline>'', ''X\<newline>'']
   \<and> insert_content [''a\<newline>'', ''b\<newline>''] ''X'' (Some '''') \<noteq> [''a\<newline>'', ''X\<newline>'', ''b\<newline>'']"
  by (simp add: insert_content_def)

lemma insert_content_one_element:
  "\<exists>pre post. lines = pre @ post \<and> insert_content lines content marker = pre @ [content @ [CHR 0x0A]] @ post"
proof -
  have app: "\<exists>pre post. lines = pre @ post \<and> lines @ [content @ [CHR 0x0A]] = pre @ [content @ [CHR 0x0A]] @ post"
    by (rule exI [of _ lines], rule exI [of _ "[]"]) simp
  have ins: "\<exists>pre post. lines = pre @ post \<and> list_insert lines i (content @ [CHR 0x0A]) = pre @ [content @ [CHR 0x0A]] @ post" for i
    by (rule exI [of _ "take i lines"], rule exI [of _ "drop i lines"]) (simp add: list_insert_def)
  show ?thesis
    using app ins by (auto simp: insert_content_def split: option.splits)
qed

text \<open>
  C5, as the code has it. For every document, content and marker, the content is inserted
  as one element, the whole content followed by one line break, whatever line breaks the
  content holds itself; the document grows by exactly that one element.
\<close>

theorem insert_content_whole_block:
  "(\<exists>pre post. lines = pre @ post
      \<and> insert_content lines content marker = pre @ [content @ [CHR 0x0A]] @ post)
   \<and> length (insert_content lines content marker) = Suc (length lines)"
proof -
  obtain pre post where *: "lines = pre @ post" "insert_content lines content marker = pre @ [content @ [CHR 0x0A]] @ post"
    using insert_content_one_element by blast
  then have "length (insert_content lines content marker) = Suc (length lines)" by simp
  with * show ?thesis by blast
qed

theorem insert_content_whole_block_witness:
  "length (insert_content [''a\<newline>''] ''x\<newline>y'' (Some ''a'')) = 2
   \<and> insert_content [''a\<newline>''] ''x\<newline>y'' (Some ''a'') = [''a\<newline>'', ''x\<newline>y\<newline>'']"
  using insert_content_whole_block [of "[''a\<newline>'']" "''x\<newline>y''" "Some ''a''"]
  by (simp add: insert_content_def list_insert_def)

text \<open>
  C5 as stated fails for a content of two lines: it becomes one element with a line break
  inside, not two elements.
\<close>

theorem insert_content_split_counterexample:
  "insert_content [''a\<newline>''] ''x\<newline>y'' None = [''a\<newline>'', ''x\<newline>y\<newline>'']
   \<and> CHR 0x0A \<in> set (butlast ''x\<newline>y\<newline>'')
   \<and> insert_content [''a\<newline>''] ''x\<newline>y'' None \<noteq> [''a\<newline>'', ''x\<newline>'', ''y\<newline>'']"
  by (simp add: insert_content_def)

section \<open>ListBlockEditor\<close>

text \<open>
  C1 at a concrete document: a second run of the exclusions loop inserts the two entries
  again after the opener, so each entry line is there twice; the resources loop of
  fix\_nested\_resources.py does the same with its two entries.
\<close>

theorem add_exclusions_twice_duplicates:
  "add_exclusions [''exclude: [\<newline>'', '']\<newline>'']
     = [''exclude: [\<newline>'',
        exclude_line ''.build/checkouts/leaf-kit/Sources/LeafKit/Docs.docc'',
        exclude_line ''.build/checkouts/swift-algorithms/Sources/Algorithms/Documentation.docc'',
        '']\<newline>'']
   \<and> add_exclusions (add_exclusions [''exclude: [\<newline>'', '']\<newline>''])
     = [''exclude: [\<newline>'',
        exclude_line ''.build/checkouts/leaf-kit/Sources/LeafKit/Docs.docc'',
        exclude_line ''.build/checkouts/swift-algorithms/Sources/Algorithms/Documentation.docc'',
        exclude_line ''.build/checkouts/leaf-kit/Sources/LeafKit/Docs.docc'',
        exclude_line ''.build/checkouts/swift-algorithms/Sources/Algorithms/Documentation.docc'',
        '']\<newline>'']
   \<and> add_exclusions (add_exclusions [''exclude: [\<newline>'', '']\<newline>''])
     \<noteq> add_exclusions [''exclude: [\<newline>'', '']\<newline>'']
   \<and> fix_nested_resources_update (fix_nested_resources_update [''resources: [\<newline>'', '']\<newline>''])
     = [''resources: [\<newline>'', views_entry, openapi_entry, views_entry, openapi_entry, '']\<newline>'']"
  by (simp add: add_exclusions_def EXCLUDE_FILES_def exclude_line_def
        fix_nested_resources_update_def skip_nested_def views_entry_def openapi_entry_def)

text \<open>
  The resources loop of fix\_resource\_conflicts.py does skip the entries of an earlier
  run before it inserts them, so a second run changes nothing.
\<close>

lemma skip_conflicts_entries: "skip_conflicts views_entry" "skip_conflicts openapi_entry"
  by (simp_all add: skip_conflicts_def views_entry_def openapi_entry_def)

lemma resources_loop_conflicts_idem:
  "resources_loop skip_conflicts (resources_loop skip_conflicts ls b) b
     = resources_loop skip_conflicts ls b"
  by (induction ls arbitrary: b) (auto simp: skip_conflicts_entries)

lemma fix_resource_conflicts_update_idem:
  "fix_resource_conflicts_update (fix_resource_conflicts_update ls) = fix_resource_conflicts_update ls"
  by (simp add: fix_resource_conflicts_update_def resources_loop_conflicts_idem)

lemma exclusions_loop_no_opener:
  "\<forall>l\<in>set ls. \<not> str_contains ''exclude: ['' l \<Longrightarrow> exclusions_loop ls b = ls"
  by (induction ls) auto

lemma resources_loop_no_opener:
  "\<forall>l\<in>set ls. \<not> str_contains ''resources: ['' l \<Longrightarrow>
   resources_loop skip ls b = filter (\<lambda>l. \<not> skip l) ls"
  by (induction ls) auto

lemma concat_split_lines: "concat (split_lines acc t) = acc @ t"
  by (induction t arbitrary: acc) auto

lemma writelines_readlines: "writelines (readlines t) = universal_newlines t"
  by (simp add: writelines_def readlines_def read_text_def concat_split_lines)

lemma universal_newlines_id: "CHR 0x0D \<notin> set t \<Longrightarrow> universal_newlines t = t"
  by (induction t rule: universal_newlines.induct) auto

lemma prefix_universal_newlines:
  "CHR 0x0D \<notin> set m \<Longrightarrow> CHR 0x0A \<notin> set m \<Longrightarrow> prefix m (universal_newlines s) \<longleftrightarrow> prefix m s"
proof (induction s arbitrary: m rule: universal_newlines.induct)
  case 1
  then show ?case by simp
next
  case (2 c)
  then show ?case by (cases m) auto
next
  case (3 c d cs)
  then show ?case by (cases m) auto
qed

lemma str_contains_Nil: "str_contains [] s"
  by (cases s) auto

lemma str_contains_universal_newlines:
  assumes "CHR 0x0D \<notin> set m" "CHR 0x0A \<notin> set m"
  shows "str_contains m (universal_newlines s) \<longleftrightarrow> str_contains m s"
proof (cases "m = []")
  case True
  then show ?thesis by (simp add: str_contains_Nil)
next
  case False
  then obtain a m' where m: "m = a # m'" by (cases m) auto
  with assms have a: "a \<noteq> CHR 0x0D" "a \<noteq> CHR 0x0A" by auto
  have "str_contains (a # m') (universal_newlines s) \<longleftrightarrow> str_contains (a # m') s"
  proof (induction s rule: universal_newlines.induct)
    case 1
    then show ?case by simp
  next
    case (2 c)
    then show ?case using a by auto
  next
    case (3 c d cs)
    have "prefix (a # m') (universal_newlines (c # d # cs)) \<longleftrightarrow> prefix (a # m') (c # d # cs)"
      using prefix_universal_newlines [of m "c # d # cs"] assms m by simp
    then show ?case using 3 a by auto
  qed
  with m show ?thesis by simp
qed

text \<open>
  C3, as the code has it. When no line contains the opener, the exclusions loop returns
  the document as it is and the resources loop returns it without the lines it skips;
  the step writes that back and prints its usual message of success. Nothing reports
  the missing opener. What the exclusions step writes back is the text as text mode read
  it, its line ends all line feeds; a file without a carriage return is left as it was.
\<close>

theorem no_opener_unreported:
  "((\<forall>l\<in>set package_content. \<not> str_contains ''exclude: ['' l) \<longrightarrow>
      add_exclusions package_content = package_content)
   \<and> ((\<forall>l\<in>set package_content. \<not> str_contains ''resources: ['' l) \<longrightarrow>
      fix_resource_conflicts_update package_content
        = filter (\<lambda>l. \<not> skip_conflicts l) package_content)
   \<and> (isdir fs [] \<and> map_of fs PACKAGE_FILE = Some (File text)
       \<and> (\<forall>l\<in>set (readlines text). \<not> str_contains ''exclude: ['' l) \<longrightarrow>
      exclude_unhandled ROOT_DIR fs
        = Inr (AList.update PACKAGE_FILE (File (universal_newlines text)) fs,
               [''Added exclusions to '' @ path_str ROOT_DIR PACKAGE_FILE @ ''.'']))
   \<and> (isdir fs [] \<and> map_of fs PACKAGE_FILE = Some (File text) \<and> CHR 0x0D \<notin> set text
       \<and> (\<forall>l\<in>set (readlines text). \<not> str_contains ''exclude: ['' l) \<longrightarrow>
      exclude_unhandled ROOT_DIR fs
        = Inr (fs, [''Added exclusions to '' @ path_str ROOT_DIR PACKAGE_FILE @ ''.'']))"
proof (intro conjI impI)
  assume "\<forall>l\<in>set package_content. \<not> str_contains ''exclude: ['' l"
  then show "add_exclusions package_content = package_content"
    by (simp add: add_exclusions_def exclusions_loop_no_opener)
next
  assume "\<forall>l\<in>set package_content. \<not> str_contains ''resources: ['' l"
  then show "fix_resource_conflicts_update package_content
        = filter (\<lambda>l. \<not> skip_conflicts l) package_content"
    by (simp add: fix_resource_conflicts_update_def resources_loop_no_opener)
next
  assume a: "isdir fs [] \<and> map_of fs PACKAGE_FILE = Some (File text)
       \<and> (\<forall>l\<in>set (readlines text). \<not> str_contains ''exclude: ['' l)"
  then have "add_exclusions (readlines text) = readlines text"
    by (simp add: add_exclusions_def exclusions_loop_no_opener)
  then show "exclude_unhandled ROOT_DIR fs
        = Inr (AList.update PACKAGE_FILE (File (universal_newlines text)) fs,
               [''Added exclusions to '' @ path_str ROOT_DIR PACKAGE_FILE @ ''.''])"
    using a
    by (simp add: exclude_unhandled_def path_exists_def open_read_def open_write_def
          parent_error_def writelines_readlines isdir_def PACKAGE_FILE_def)
next
  assume a: "isdir fs [] \<and> map_of fs PACKAGE_FILE = Some (File text) \<and> CHR 0x0D \<notin> set text
       \<and> (\<forall>l\<in>set (readlines text). \<not> str_contains ''exclude: ['' l)"
  then have "add_exclusions (readlines text) = readlines text"
    by (simp add: add_exclusions_def exclusions_loop_no_opener)
  moreover have "AList.update PACKAGE_FILE (File text) fs = fs"
    using a by (simp add: update_triv)
  ultimately show "exclude_unhandled ROOT_DIR fs
        = Inr (fs, [''Added exclusions to '' @ path_str ROOT_DIR PACKAGE_FILE @ ''.''])"
    using a
    by (simp add: exclude_unhandled_def path_exists_def open_read_def open_write_def
          parent_error_def writelines_readlines universal_newlines_id isdir_def PACKAGE_FILE_def)
qed

theorem no_opener_unreported_witness:
  "add_exclusions [''// swift-tools-version:5.9\<newline>'', ''let package = Package(\<newline>'']
     = [''// swift-tools-version:5.9\<newline>'', ''let package = Package(\<newline>'']
   \<and> fix_resource_conflicts_update [''// swift-tools-version:5.9\<newline>'', views_entry]
     = [''// swift-tools-version:5.9\<newline>'']
   \<and> exclude_unhandled ''/proj''
       [([], Dir), ([''Package.swift''], File (''// swift'' @ [CHR 0x0D, CHR 0x0A] @ ''let x''))]
     = Inr ([([], Dir), ([''Package.swift''], File ''// swift\<newline>let x'')],
            [''Added exclusions to /proj/Package.swift.''])
   \<and> exclude_unhandled ''/proj'' [([], Dir), ([''Package.swift''], File ''// swift-tools-version:5.9\<newline>'')]
     = Inr ([([], Dir), ([''Package.swift''], File ''// swift-tools-version:5.9\<newline>'')],
            [''Added exclusions to /proj/Package.swift.''])"
  using no_opener_unreported [of "[''// swift-tools-version:5.9\<newline>'', ''let package = Package(\<newline>'']"]
    no_opener_unreported [of "[''// swift-tools-version:5.9\<newline>'', views_entry]"
      "[([], Dir), ([''Package.swift''], File ''// swift-tools-version:5.9\<newline>'')]"
      "''// swift-tools-version:5.9\<newline>''" "''/proj''"]
    no_opener_unreported [of "[]"
      "[([], Dir), ([''Package.swift''], File (''// swift'' @ [CHR 0x0D, CHR 0x0A] @ ''let x''))]"
      "''// swift'' @ [CHR 0x0D, CHR 0x0A] @ ''let x''" "''/proj''"]
  by (simp add: isdir_def PACKAGE_FILE_def readlines_def read_text_def views_entry_def
        skip_conflicts_def path_str_def join_def)

text \<open>
  C3 as stated fails on a Package.swift without an \<^verbatim>\<open>exclude: [\<close> line: the step ends
  normally, the file is what it was, and the message says that exclusions were added.
\<close>

theorem no_opener_unreported_counterexample:
  "\<not> str_contains ''exclude: ['' ''// swift-tools-version:5.9\<newline>''
   \<and> exclude_unhandled ''/proj'' [([], Dir), ([''Package.swift''], File ''// swift-tools-version:5.9\<newline>'')]
     = Inr ([([], Dir), ([''Package.swift''], File ''// swift-tools-version:5.9\<newline>'')],
            [''Added exclusions to /proj/Package.swift.''])"
  by (simp add: exclude_unhandled_def path_exists_def open_read_def open_write_def isdir_def
        parent_error_def PACKAGE_FILE_def readlines_def read_text_def writelines_def
        add_exclusions_def path_str_def join_def)

section \<open>ScaffoldValidator\<close>

lemma check_routes_empty:
  "check_routes r fs = [] \<longleftrightarrow> (\<exists>content. map_of fs routes_file = Some (File content)
            \<and> str_contains (''app.get('' @ [CHR 0x22] @ ''openapi.yml'' @ [CHR 0x22] @ '')'') content
            \<and> str_contains (''app.get('' @ [CHR 0x22] @ ''docs'' @ [CHR 0x22] @ '')'') content)"
  by (auto simp: check_routes_def read_text_def str_contains_universal_newlines
        split: option.splits node.splits)

lemma check_configure_empty:
  "check_configure r fs = [] \<longleftrightarrow> (\<exists>content. map_of fs configure_file = Some (File content)
            \<and> str_contains ''app.views.use(.leaf)'' content)"
  by (auto simp: check_configure_def read_text_def str_contains_universal_newlines
        split: option.splits node.splits)

lemma validate_results_empty: "validate_results r fs = [] \<longleftrightarrow> all_present fs"
  unfolding validate_results_def all_present_def
  by (simp add: check_routes_empty check_configure_empty)

lemmas val_paths = openapi_dir_def views_dir_def redoc_assets_dir_def routes_file_def
  configure_file_def openapi_file_def redoc_leaf_file_def redoc_css_file_def redoc_js_file_def

lemma isfile_delete: "isfile (AList.delete f fs) p = (p \<noteq> f \<and> isfile fs p)"
  by (simp add: isfile_def delete_conv')

lemma isdir_delete: "isdir (AList.delete f fs) p = (p \<noteq> f \<and> isdir fs p)"
  by (simp add: isdir_def delete_conv')

lemma isfile_remove: "isfile fs f \<Longrightarrow> os_remove fs f = Inr (AList.delete f fs)"
  by (auto simp: isfile_def os_remove_def split: option.splits node.splits)

lemma check_routes_delete: "p \<noteq> routes_file \<Longrightarrow> check_routes r (AList.delete p fs) = check_routes r fs"
  by (simp add: check_routes_def delete_conv')

lemma check_configure_delete: "p \<noteq> configure_file \<Longrightarrow> check_configure r (AList.delete p fs) = check_configure r fs"
  by (simp add: check_configure_def delete_conv')

lemma delete_one_file:
  assumes "validate_results r fs = []"
    and "f \<in> {openapi_file, redoc_leaf_file, redoc_css_file, redoc_js_file, routes_file, configure_file}"
  shows "os_remove fs f = Inr (AList.delete f fs)
         \<and> validate_results r (AList.delete f fs) = [''Missing file: '' @ path_str r f]"
proof -
  from assms(1) have ap: "all_present fs" by (simp add: validate_results_empty)
  then have cr: "check_routes r fs = []" and cc: "check_configure r fs = []"
    by (simp_all add: check_routes_empty check_configure_empty all_present_def)
  from ap have dirs: "isdir fs openapi_dir" "isdir fs views_dir" "isdir fs redoc_assets_dir"
    and files: "isfile fs openapi_file" "isfile fs redoc_leaf_file" "isfile fs redoc_css_file" "isfile fs redoc_js_file"
    by (simp_all add: all_present_def)
  from ap have rf: "isfile fs routes_file" and cf: "isfile fs configure_file"
    by (auto simp: all_present_def isfile_def)
  have ne: "routes_file \<noteq> configure_file" "openapi_file \<noteq> routes_file" "openapi_file \<noteq> configure_file"
     "redoc_leaf_file \<noteq> routes_file" "redoc_leaf_file \<noteq> configure_file"
     "redoc_css_file \<noteq> routes_file" "redoc_css_file \<noteq> configure_file"
     "redoc_js_file \<noteq> routes_file" "redoc_js_file \<noteq> configure_file"
    by (simp_all add: val_paths)
  from assms(2) consider "f = openapi_file" | "f = redoc_leaf_file" | "f = redoc_css_file"
    | "f = redoc_js_file" | "f = routes_file" | "f = configure_file" by auto
  then show ?thesis
  proof cases
    case 1
    have "validate_results r (AList.delete openapi_file fs) = [''Missing file: '' @ path_str r openapi_file]"
      unfolding validate_results_def
      using dirs files ne cr cc
      by (simp add: isfile_delete isdir_delete check_routes_delete check_configure_delete)
         (simp add: val_paths)
    with 1 files show ?thesis by (simp add: isfile_remove)
  next
    case 2
    have "validate_results r (AList.delete redoc_leaf_file fs) = [''Missing file: '' @ path_str r redoc_leaf_file]"
      unfolding validate_results_def
      using dirs files ne cr cc
      by (simp add: isfile_delete isdir_delete check_routes_delete check_configure_delete)
         (simp add: val_paths)
    with 2 files show ?thesis by (simp add: isfile_remove)
  next
    case 3
    have "validate_results r (AList.delete redoc_css_file fs) = [''Missing file: '' @ path_str r redoc_css_file]"
      unfolding validate_results_def
      using dirs files ne cr cc
      by (simp add: isfile_delete isdir_delete check_routes_delete check_configure_delete)
         (simp add: val_paths)
    with 3 files show ?thesis by (simp add: isfile_remove)
  next
    case 4
    have "validate_results r (AList.delete redoc_js_file fs) = [''Missing file: '' @ path_str r redoc_js_file]"
      unfolding validate_results_def
      using dirs files ne cr cc
      by (simp add: isfile_delete isdir_delete check_routes_delete check_configure_delete)
         (simp add: val_paths)
    with 4 files show ?thesis by (simp add: isfile_remove)
  next
    case 5
    have "check_routes r (AList.delete routes_file fs) = [''Missing file: '' @ path_str r routes_file]"
      by (simp add: check_routes_def delete_conv')
    then have "validate_results r (AList.delete routes_file fs) = [''Missing file: '' @ path_str r routes_file]"
      unfolding validate_results_def
      using dirs files ne cc
      by (simp add: isfile_delete isdir_delete check_configure_delete)
         (simp add: val_paths)
    with 5 rf show ?thesis by (simp add: isfile_remove)
  next
    case 6
    have "check_configure r (AList.delete configure_file fs) = [''Missing file: '' @ path_str r configure_file]"
      by (simp add: check_configure_def delete_conv')
    then have "validate_results r (AList.delete configure_file fs) = [''Missing file: '' @ path_str r configure_file]"
      unfolding validate_results_def
      using dirs files ne cr
      by (simp add: isfile_delete isdir_delete check_routes_delete)
         (simp add: val_paths)
    with 6 cf show ?thesis by (simp add: isfile_remove)
  qed
qed

lemma valid_tree_ok: "validate_results ''/proj'' valid_tree = []"
  by (simp add: validate_results_def check_routes_def check_configure_def read_text_def
        isdir_def isfile_def valid_tree_def val_paths)

text \<open>
  C8. \<^verbatim>\<open>validate_redoc_setup\<close> leaves the file system as it found it. Its list of results is
  empty exactly when every expected directory, file and marker is present. When the list
  is empty and one of the six expected files is removed, the next run reports exactly one
  result, \<^verbatim>\<open>Missing file:\<close> with the path of that file.
\<close>

theorem validate_redoc_setup_check:
  "fst (validate_redoc_setup project_root fs) = fs
   \<and> (validate_results project_root fs = [] \<longleftrightarrow> all_present fs)
   \<and> (validate_results project_root fs = []
        \<and> f \<in> {openapi_file, redoc_leaf_file, redoc_css_file, redoc_js_file, routes_file,
                configure_file} \<longrightarrow>
      os_remove fs f = Inr (AList.delete f fs)
      \<and> validate_results project_root (AList.delete f fs)
          = [''Missing file: '' @ path_str project_root f])"
  using delete_one_file [of project_root fs f]
  by (simp add: validate_redoc_setup_def Let_def validate_results_empty)

theorem validate_redoc_setup_check_witness:
  "validate_results ''/proj'' valid_tree = []
   \<and> all_present valid_tree
   \<and> os_remove valid_tree redoc_leaf_file = Inr (AList.delete redoc_leaf_file valid_tree)
   \<and> validate_results ''/proj'' (AList.delete redoc_leaf_file valid_tree)
       = [''Missing file: /proj/Resources/Views/redoc.leaf'']"
  using validate_redoc_setup_check [of "''/proj''" valid_tree redoc_leaf_file] valid_tree_ok
  by (simp add: path_str_def join_def val_paths)

section \<open>Path resolution\<close>

lemma keys_iff: "p \<in> set (map fst fs) \<longleftrightarrow> map_of fs p \<noteq> None"
  by (simp add: map_of_eq_None_iff)

lemma wf_fs_iff: "wf_fs fs \<longleftrightarrow> distinct (map fst fs)
     \<and> (\<forall>p. map_of fs p \<noteq> None \<and> p \<noteq> [] \<longrightarrow> map_of fs (butlast p) = Some Dir)"
  unfolding wf_fs_def by (auto simp: keys_iff simp del: set_map)

lemma wf_parent: "wf_fs fs \<Longrightarrow> map_of fs p = Some n \<Longrightarrow> p \<noteq> [] \<Longrightarrow> map_of fs (butlast p) = Some Dir"
  unfolding wf_fs_iff by auto

lemma wf_prefix_dir:
  assumes "wf_fs fs" "map_of fs p = Some n" "strict_prefix q p"
  shows "map_of fs q = Some Dir"
  using assms(2,3)
proof (induction p arbitrary: n rule: rev_induct)
  case Nil
  then show ?case by simp
next
  case (snoc x xs)
  from snoc.prems(1) assms(1) have par: "map_of fs xs = Some Dir"
    using wf_parent [of fs "xs @ [x]" n] by simp
  from snoc.prems(2) have "prefix q xs" by (metis prefix_snoc strict_prefix_def)
  then consider "q = xs" | "strict_prefix q xs" by (auto simp: strict_prefix_def)
  then show ?case
  proof cases
    case 1
    with par show ?thesis by simp
  next
    case 2
    with snoc.IH [OF par] show ?thesis by simp
  qed
qed

lemma resolve_None:
  "(\<And>q. prefix pre q \<Longrightarrow> strict_prefix q (pre @ cs) \<Longrightarrow> map_of fs q = Some Dir)
   \<Longrightarrow> resolve fs p pre cs = None"
proof (induction cs arbitrary: pre)
  case Nil
  then show ?case by simp
next
  case (Cons c cs)
  have "map_of fs pre = Some Dir" using Cons.prems [of pre] by (simp add: strict_prefix_def)
  moreover have "resolve fs p (pre @ [c]) cs = None"
  proof (rule Cons.IH)
    fix q
    assume "prefix (pre @ [c]) q" "strict_prefix q ((pre @ [c]) @ cs)"
    then show "map_of fs q = Some Dir"
      using Cons.prems [of q] by (auto dest: append_prefixD)
  qed
  ultimately show ?case by simp
qed

lemma parent_error_None:
  assumes "wf_fs fs" "p \<noteq> []" "map_of fs (butlast p) = Some Dir"
  shows "parent_error fs p = None"
  unfolding parent_error_def
proof (rule resolve_None)
  fix q
  assume "strict_prefix q ([] @ p)"
  then have "prefix q (butlast p)"
    using assms(2) by (metis append_Nil append_butlast_last_id prefix_snoc strict_prefix_def)
  then consider "q = butlast p" | "strict_prefix q (butlast p)" by (auto simp: strict_prefix_def)
  then show "map_of fs q = Some Dir"
    using assms(1,3) wf_prefix_dir by cases auto
qed

text \<open>Below a regular file, and below a directory that is missing.\<close>

lemma open_write_errors:
  "open_write [([], Dir), ([''Sources''], File ''x'')] [''Sources'', ''App'', ''routes.swift''] ''y''
     = Inl (NotADirectoryError [''Sources'', ''App'', ''routes.swift''])"
  "open_write [([], Dir), ([''Sources''], Dir)] [''Sources'', ''App'', ''routes.swift''] ''y''
     = Inl (FileNotFoundError [''Sources'', ''App'', ''routes.swift''])"
  by (simp_all add: open_write_def isdir_def parent_error_def)

section \<open>Missing files\<close>

text \<open>
  C9. Given a path that does not exist, \<^verbatim>\<open>clean_file\<close> prints that the file was not found,
  returns normally and leaves the file system as it was; \<^verbatim>\<open>clean_vapor_project\<close> then goes
  on with its remaining steps, as if the call had been that one printed line. The steps of
  the fix scripts that edit Package.swift do the same when it is missing.
\<close>

theorem missing_file_is_skipped:
  "(\<not> path_exists fs file_path \<longrightarrow>
      clean_file base_dir file_path patterns_to_remove fs
        = Inr (fs, [''File not found: '' @ path_str base_dir file_path]))
   \<and> (\<not> path_exists fs [''Sources'', ''App'', ''routes.swift''] \<longrightarrow>
      clean_vapor_project base_dir fs =
        run_steps
          [say ''Cleaning routes.swift...'',
           say (''File not found: '' @ path_str base_dir [''Sources'', ''App'', ''routes.swift'']),
           say ''Cleaning configure.swift...'',
           clean_file base_dir [''Sources'', ''App'', ''configure.swift'']
             [''CreateTodo'', ''app.migrations.add''],
           say ''Removing default controller files...'',
           remove_default_files base_dir [''Sources'', ''App'', ''Controllers''],
           say ''Removing default migration files...'',
           remove_default_files base_dir [''Sources'', ''App'', ''Migrations''],
           say ''Cleanup completed. Please ensure the project compiles by running:'',
           say ''swift build''] fs)
   \<and> (\<not> path_exists fs PACKAGE_FILE \<longrightarrow>
      update_package update ROOT_DIR fs
        = Inr (fs, [''Error: '' @ path_str ROOT_DIR PACKAGE_FILE @ '' does not exist.''])
      \<and> exclude_unhandled ROOT_DIR fs
        = Inr (fs, [''Error: '' @ path_str ROOT_DIR PACKAGE_FILE @ '' does not exist.'']))"
  by (simp add: clean_file_def clean_vapor_project_def update_package_def exclude_unhandled_def
        say_def)

theorem missing_file_is_skipped_witness:
  "clean_file ''/proj'' [''Sources'', ''App'', ''routes.swift''] [''TodoController''] [([], Dir)]
     = Inr ([([], Dir)], [''File not found: /proj/Sources/App/routes.swift''])
   \<and> clean_vapor_project ''/proj'' [([], Dir)]
     = Inr ([([], Dir)],
         [''Cleaning routes.swift...'', ''File not found: /proj/Sources/App/routes.swift'',
          ''Cleaning configure.swift...'', ''File not found: /proj/Sources/App/configure.swift'',
          ''Removing default controller files...'', ''Removing default migration files...'',
          ''Cleanup completed. Please ensure the project compiles by running:'',
          ''swift build''])
   \<and> exclude_unhandled ''/proj'' [([], Dir)]
     = Inr ([([], Dir)], [''Error: /proj/Package.swift does not exist.''])"
  using missing_file_is_skipped [of "[([], Dir)]" "[''Sources'', ''App'', ''routes.swift'']"
      "''/proj''" "[''TodoController'']" id "''/proj''"]
  by (simp add: path_exists_def PACKAGE_FILE_def path_str_def join_def say_def clean_file_def
        remove_default_files_def)

text \<open>
  C10, as the code has it. For a path that does not exist in a directory that does,
  \<^verbatim>\<open>append_to_file\<close> creates the file with exactly the content: the marker plays no part
  and no line break is added. When the file exists, its new text is the text that text
  mode reads from it, with the content and one line feed after it inserted at some place.
\<close>

theorem append_to_file_missing_file:
  "(wf_fs fs \<and> \<not> path_exists fs p \<and> isdir fs (butlast p) \<longrightarrow>
      append_to_file fs p content marker = Inr (AList.update p (File content) fs))
   \<and> (wf_fs fs \<and> map_of fs p = Some (File text) \<and> isdir fs (butlast p) \<longrightarrow>
      (\<exists>pre post. universal_newlines text = pre @ post
         \<and> append_to_file fs p content marker
             = Inr (AList.update p (File (pre @ content @ [CHR 0x0A] @ post)) fs)))"
proof (intro conjI impI)
  assume a: "wf_fs fs \<and> \<not> path_exists fs p \<and> isdir fs (butlast p)"
  then have "p \<noteq> []" by (auto simp: isdir_def path_exists_def)
  then have "parent_error fs p = None"
    using a by (intro parent_error_None) (auto simp: isdir_def)
  then show "append_to_file fs p content marker = Inr (AList.update p (File content) fs)"
    using a \<open>p \<noteq> []\<close> by (auto simp: append_to_file_def open_write_def isdir_def path_exists_def)
next
  assume a: "wf_fs fs \<and> map_of fs p = Some (File text) \<and> isdir fs (butlast p)"
  obtain pre post where pp: "readlines text = pre @ post"
    "insert_content (readlines text) content marker = pre @ [content @ [CHR 0x0A]] @ post"
    using insert_content_one_element by blast
  have "universal_newlines text = concat pre @ concat post"
    using pp(1) writelines_readlines [of "text"] by (simp add: writelines_def)
  moreover have "p \<noteq> []" using a by (auto simp: isdir_def)
  then have "parent_error fs p = None"
    using a by (intro parent_error_None) (auto simp: isdir_def)
  then have "append_to_file fs p content marker
      = Inr (AList.update p (File (concat pre @ content @ [CHR 0x0A] @ concat post)) fs)"
    using a pp(2) \<open>p \<noteq> []\<close>
    by (simp add: append_to_file_def open_write_def open_read_def isdir_def path_exists_def
          writelines_def)
  ultimately show "\<exists>pre post. universal_newlines text = pre @ post
         \<and> append_to_file fs p content marker
             = Inr (AList.update p (File (pre @ content @ [CHR 0x0A] @ post)) fs)"
    by blast
qed

theorem append_to_file_missing_file_witness:
  "append_to_file [([], Dir)] [''Package.swift''] ''// added'' (Some ''dependencies: ['')
     = Inr [([], Dir), ([''Package.swift''], File ''// added'')]
   \<and> append_to_file [([], Dir), ([''Package.swift''], File ''let x'')] [''Package.swift'']
        ''// added'' None
     = Inr [([], Dir), ([''Package.swift''], File ''let x// added\<newline>'')]
   \<and> append_to_file
        [([], Dir), ([''Package.swift''], File (''let x'' @ [CHR 0x0D, CHR 0x0A] @ ''let y''))]
        [''Package.swift''] ''// added'' (Some ''let x'')
     = Inr [([], Dir), ([''Package.swift''], File ''let x\<newline>// added\<newline>let y'')]"
  using append_to_file_missing_file [of "[([], Dir)]" "[''Package.swift'']" "''// added''"
      "Some ''dependencies: [''"]
    append_to_file_missing_file [of "[([], Dir), ([''Package.swift''], File ''let x'')]"
      "[''Package.swift'']" "''// added''" None "''let x''"]
    append_to_file_missing_file
      [of "[([], Dir), ([''Package.swift''], File (''let x'' @ [CHR 0x0D, CHR 0x0A] @ ''let y''))]"
      "[''Package.swift'']" "''// added''" "Some ''let x''"
      "''let x'' @ [CHR 0x0D, CHR 0x0A] @ ''let y''"]
  by (simp add: wf_fs_def path_exists_def isdir_def append_to_file_def open_read_def
        open_write_def parent_error_def readlines_def read_text_def writelines_def
        insert_content_def list_insert_def)

text \<open>
  C10 as stated fails for a path whose directory is missing: the path does not exist, and
  the call ends with an exception instead of a new file. \<^verbatim>\<open>create_file\<close> and
  \<^verbatim>\<open>write_file\<close> of the same scripts make the directory before they open the file.
\<close>

theorem append_to_file_missing_parent_counterexample:
  "\<not> path_exists [([], Dir)] [''Sources'', ''App'', ''configure.swift'']
   \<and> append_to_file [([], Dir)] [''Sources'', ''App'', ''configure.swift''] ''// added'' None
     = Inl (FileNotFoundError [''Sources'', ''App'', ''configure.swift''])"
  by (simp add: path_exists_def isdir_def append_to_file_def open_write_def parent_error_def)

section \<open>TreeMerger: the file system operations\<close>

lemma wf_root: "wf_fs fs \<Longrightarrow> map_of fs p = Some n \<Longrightarrow> map_of fs [] = Some Dir \<or> p = []"
  using wf_prefix_dir [of fs p n "[]"] by (cases p) auto

lemma wf_update:
  assumes "wf_fs fs" "p \<noteq> []" "map_of fs (butlast p) = Some Dir" "map_of fs p \<noteq> Some Dir"
  shows "wf_fs (AList.update p n fs)"
proof -
  have d: "distinct (map fst (AList.update p n fs))"
    using assms(1) by (simp add: wf_fs_def distinct_update)
  have "map_of (AList.update p n fs) (butlast k) = Some Dir"
    if k: "map_of (AList.update p n fs) k \<noteq> None" "k \<noteq> []" for k
  proof (cases "k = p")
    case True
    have "butlast p \<noteq> p" using assms(2) by (metis butlast_snoc append_butlast_last_id append_self_conv list.distinct(1))
    with True assms(3) show ?thesis by (simp add: update_conv')
  next
    case False
    with k have "map_of fs k \<noteq> None" by (simp add: update_conv')
    then obtain m where m: "map_of fs k = Some m" by auto
    from wf_parent [OF assms(1) m k(2)] have par: "map_of fs (butlast k) = Some Dir" .
    with assms(4) have "butlast k \<noteq> p" by auto
    with par show ?thesis by (simp add: update_conv')
  qed
  with d show ?thesis unfolding wf_fs_iff by blast
qed

lemma wf_delete:
  assumes "wf_fs fs" "map_of fs p \<noteq> Some Dir"
  shows "wf_fs (AList.delete p fs)"
proof -
  have d: "distinct (map fst (AList.delete p fs))"
    using assms(1) by (simp add: wf_fs_def distinct_delete)
  have "map_of (AList.delete p fs) (butlast k) = Some Dir"
    if k: "map_of (AList.delete p fs) k \<noteq> None" "k \<noteq> []" for k
  proof -
    from k have kp: "k \<noteq> p" and "map_of fs k \<noteq> None" by (auto simp: delete_conv' split: if_splits)
    then obtain m where m: "map_of fs k = Some m" by auto
    from wf_parent [OF assms(1) m k(2)] have par: "map_of fs (butlast k) = Some Dir" .
    with assms(2) have "butlast k \<noteq> p" by auto
    with par show ?thesis by (simp add: delete_conv')
  qed
  with d show ?thesis unfolding wf_fs_iff by blast
qed

lemma makedirs_from_ok:
  assumes "wf_fs fs" "map_of fs pre = Some Dir"
    and "\<forall>q. prefix q (pre @ cs) \<longrightarrow> isfile fs q = False"
  shows "\<exists>fs'. makedirs_from fs pre cs = Inr fs' \<and> wf_fs fs'
     \<and> (\<forall>q. map_of fs' q = (if prefix q (pre @ cs) \<and> \<not> prefix q pre then Some Dir else map_of fs q))"
  using assms
proof (induction cs arbitrary: fs pre)
  case Nil
  then show ?case by auto
next
  case (Cons c cs)
  let ?p = "pre @ [c]"
  have nf: "\<not> isfile fs ?p" using Cons.prems(3) by (simp add: prefix_def)
  show ?case
  proof (cases "map_of fs ?p")
    case None
    let ?fs1 = "AList.update ?p Dir fs"
    have wf1: "wf_fs ?fs1" using Cons.prems(1,2) None by (intro wf_update) auto
    have d1: "map_of ?fs1 ?p = Some Dir" by (simp add: update_conv')
    have nf1: "\<forall>q. prefix q (?p @ cs) \<longrightarrow> isfile ?fs1 q = False"
      using Cons.prems(3) by (auto simp: isfile_def update_conv')
    from Cons.IH [OF wf1 d1 nf1] obtain fs' where r:
      "makedirs_from ?fs1 ?p cs = Inr fs'" "wf_fs fs'"
      "\<forall>q. map_of fs' q = (if prefix q (?p @ cs) \<and> \<not> prefix q ?p then Some Dir else map_of ?fs1 q)"
      by blast
    have "map_of fs' q = (if prefix q (pre @ c # cs) \<and> \<not> prefix q pre then Some Dir else map_of fs q)" for q
      using r(3) by (auto simp: update_conv' prefix_snoc)
    with r(1,2) None show ?thesis by simp
  next
    case (Some n)
    with nf have n: "n = Dir" by (cases n) (auto simp: isfile_def)
    have d1: "map_of fs ?p = Some Dir" using Some n by simp
    have nf1: "\<forall>q. prefix q (?p @ cs) \<longrightarrow> isfile fs q = False"
      using Cons.prems(3) by auto
    from Cons.IH [OF Cons.prems(1) d1 nf1] obtain fs' where r:
      "makedirs_from fs ?p cs = Inr fs'" "wf_fs fs'"
      "\<forall>q. map_of fs' q = (if prefix q (?p @ cs) \<and> \<not> prefix q ?p then Some Dir else map_of fs q)"
      by blast
    have "map_of fs' q = (if prefix q (pre @ c # cs) \<and> \<not> prefix q pre then Some Dir else map_of fs q)" for q
      using r(3) d1 by (auto simp: prefix_snoc)
    with r(1,2) d1 show ?thesis by simp
  qed
qed

lemma makedirs_ok:
  assumes "wf_fs fs" "map_of fs [] = Some Dir" "\<forall>q. prefix q p \<longrightarrow> \<not> isfile fs q"
  shows "\<exists>fs'. makedirs fs p = Inr fs' \<and> wf_fs fs'
     \<and> (\<forall>q. map_of fs' q = (if prefix q p then Some Dir else map_of fs q))"
proof -
  from makedirs_from_ok [of fs "[]" p] assms obtain fs' where r:
    "makedirs_from fs [] p = Inr fs'" "wf_fs fs'"
    "\<forall>q. map_of fs' q = (if prefix q ([] @ p) \<and> \<not> prefix q [] then Some Dir else map_of fs q)"
    by auto
  have "map_of fs' q = (if prefix q p then Some Dir else map_of fs q)" for q
    using r(3) assms(2) by (cases "q = []") auto
  with r(1,2) show ?thesis by (auto simp: makedirs_def)
qed

lemma move_file_ok:
  assumes "wf_fs fs" "map_of fs src = Some (File c)" "map_of fs dst \<noteq> Some Dir"
    "map_of fs (butlast dst) = Some Dir" "dst \<noteq> []"
  shows "\<exists>fs'. move fs src dst = Inr fs' \<and> wf_fs fs'
     \<and> (\<forall>q. map_of fs' q = (if q = dst then Some (File c) else if q = src then None else map_of fs q))"
proof -
  let ?fs1 = "AList.delete src fs"
  let ?fs2 = "AList.update dst (File c) ?fs1"
  have wf1: "wf_fs ?fs1" using assms(1,2) by (intro wf_delete) auto
  have "butlast dst \<noteq> src" using assms(2,4) by auto
  then have "map_of ?fs1 (butlast dst) = Some Dir" using assms(4) by (simp add: delete_conv')
  moreover have "map_of ?fs1 dst \<noteq> Some Dir" using assms(3) by (simp add: delete_conv')
  ultimately have wf2: "wf_fs ?fs2" using wf1 assms(5) by (intro wf_update) auto
  have "move fs src dst = Inr ?fs2"
    using assms by (simp add: move_def move_to_def isdir_def parent_error_None)
  moreover have "map_of ?fs2 q = (if q = dst then Some (File c) else if q = src then None else map_of fs q)" for q
    by (simp add: update_conv' delete_conv')
  ultimately show ?thesis using wf2 by blast
qed

lemma children_set:
  assumes "distinct (map fst fs)"
  shows "(name, n) \<in> set (children fs dir) \<longleftrightarrow> map_of fs (dir @ [name]) = Some n"
proof
  assume "(name, n) \<in> set (children fs dir)"
  then obtain p where p: "(p, n) \<in> set fs" "p \<noteq> []" "butlast p = dir" "last p = name"
    by (auto simp: children_def)
  then have "p = dir @ [name]" by (metis append_butlast_last_id)
  with p(1) assms show "map_of fs (dir @ [name]) = Some n" by simp
next
  assume "map_of fs (dir @ [name]) = Some n"
  then have "(dir @ [name], n) \<in> set fs" by (rule map_of_SomeD)
  then show "(name, n) \<in> set (children fs dir)"
    unfolding children_def by (auto simp: image_iff intro!: bexI [of _ "(dir @ [name], n)"])
qed

lemma children_distinct:
  assumes "distinct (map fst fs)"
  shows "distinct (map fst (children fs dir))"
proof -
  let ?P = "\<lambda>(p, n). p \<noteq> [] \<and> butlast p = dir"
  have eq: "map fst (children fs dir) = map last (map fst (filter ?P fs))"
    by (simp add: children_def case_prod_unfold comp_def)
  have d: "distinct (map fst (filter ?P fs))" using assms by (rule distinct_map_filter)
  have inj: "inj_on last (set (map fst (filter ?P fs)))"
  proof (rule inj_onI)
    fix x y assume "x \<in> set (map fst (filter ?P fs))" "y \<in> set (map fst (filter ?P fs))" "last x = last y"
    then have "x \<noteq> []" "butlast x = dir" "y \<noteq> []" "butlast y = dir" "last x = last y" by auto
    then show "x = y" by (metis append_butlast_last_id)
  qed
  have "distinct (map last (map fst (filter ?P fs)))"
    by (rule iffD2 [OF distinct_map]) (rule conjI [OF d inj])
  then show ?thesis by (simp only: eq)
qed

lemma scandir_ok:
  assumes "wf_fs fs" "map_of fs dir = Some Dir"
  shows "\<exists>dirs files. scandir fs dir = Some (dirs, files) \<and> distinct dirs \<and> distinct files
     \<and> set dirs = {n. map_of fs (dir @ [n]) = Some Dir}
     \<and> set files = {n. \<exists>c. map_of fs (dir @ [n]) = Some (File c)}"
proof -
  from assms(1) have d: "distinct (map fst fs)" by (simp add: wf_fs_def)
  let ?ch = "children fs dir"
  let ?dirs = "map fst (filter (\<lambda>(name, n). n = Dir) ?ch)"
  let ?files = "map fst (filter (\<lambda>(name, n). n \<noteq> Dir) ?ch)"
  have dc: "distinct (map fst ?ch)" using d by (rule children_distinct)
  have "distinct ?dirs" "distinct ?files" using dc by (auto intro: distinct_map_filter)
  moreover have "set ?dirs = {n. map_of fs (dir @ [n]) = Some Dir}"
    using children_set [OF d, of _ _ dir] by (auto simp: image_iff) 
  moreover have "set ?files = {n. \<exists>c. map_of fs (dir @ [n]) = Some (File c)}"
  proof (intro set_eqI iffI)
    fix x assume "x \<in> set ?files"
    then obtain n where "(x, n) \<in> set ?ch" "n \<noteq> Dir" by auto
    then have "map_of fs (dir @ [x]) = Some n" "n \<noteq> Dir" using children_set [OF d] by auto
    then show "x \<in> {n. \<exists>c. map_of fs (dir @ [n]) = Some (File c)}" by (cases n) auto
  next
    fix x assume "x \<in> {n. \<exists>c. map_of fs (dir @ [n]) = Some (File c)}"
    then obtain c where "map_of fs (dir @ [x]) = Some (File c)" by auto
    then have "(x, File c) \<in> set ?ch" using children_set [OF d] by auto
    then have "(x, File c) \<in> set (filter (\<lambda>(name, n). n \<noteq> Dir) ?ch)" by simp
    then show "x \<in> set ?files" by (metis fst_conv image_eqI set_map)
  qed
  moreover have "scandir fs dir = Some (?dirs, ?files)" using assms(2) by (simp add: scandir_def isdir_def)
  ultimately show ?thesis by blast
qed

lemma isfile_iff: "isfile fs p \<longleftrightarrow> (\<exists>c. map_of fs p = Some (File c))"
  by (auto simp: isfile_def split: option.splits node.splits)

lemma move_files_ok:
  assumes "wf_fs fs" "map_of fs [] = Some Dir" "distinct files"
    and "\<forall>f\<in>set files. \<exists>c. map_of fs (N @ rel @ [f]) = Some (File c)"
    and "\<forall>q. prefix q (R @ rel) \<longrightarrow> \<not> isfile fs q"
    and "\<forall>f\<in>set files. map_of fs (R @ rel @ [f]) \<noteq> Some Dir"
    and "R @ rel \<noteq> N @ rel"
  shows "\<exists>fs'. move_files N R (N @ rel) files fs = Inr fs' \<and> wf_fs fs'
     \<and> (\<forall>f\<in>set files. map_of fs' (N @ rel @ [f]) = None
            \<and> map_of fs' (R @ rel @ [f]) = map_of fs (N @ rel @ [f]))
     \<and> (\<forall>q. (\<forall>f\<in>set files. q \<noteq> N @ rel @ [f] \<and> q \<noteq> R @ rel @ [f]) \<longrightarrow>
            map_of fs' q = map_of fs q
            \<or> (prefix q (R @ rel) \<and> map_of fs q = None \<and> map_of fs' q = Some Dir))"
  using assms
proof (induction files arbitrary: fs)
  case Nil
  then show ?case by simp
next
  case (Cons f files)
  let ?s = "N @ rel @ [f]" and ?d = "R @ rel @ [f]"
  from Cons.prems(4) obtain c where c: "map_of fs ?s = Some (File c)" by auto
  have nf: "\<And>q. prefix q (R @ rel) \<Longrightarrow> \<not> isfile fs q" using Cons.prems(5) by blast
  have s_npre: "\<not> prefix ?s (R @ rel)" using nf [of ?s] c by (auto simp: isfile_iff)
  have d_npre: "\<not> prefix ?d (R @ rel)"
    by (metis append.assoc append_self_conv prefix_order.antisym prefix_append not_Cons_self2 prefixI)
  have sd: "?s \<noteq> ?d" using Cons.prems(7) by auto
  from makedirs_ok [OF Cons.prems(1,2), of "R @ rel"] nf obtain fs1 where fs1:
    "makedirs fs (R @ rel) = Inr fs1" "wf_fs fs1"
    "\<And>q. map_of fs1 q = (if prefix q (R @ rel) then Some Dir else map_of fs q)"
    by blast
  have m1s: "map_of fs1 ?s = Some (File c)" using fs1(3) s_npre c by simp
  have m1d: "map_of fs1 ?d \<noteq> Some Dir" using fs1(3) d_npre Cons.prems(6) by simp
  have m1p: "map_of fs1 (butlast ?d) = Some Dir" using fs1(3) [of "R @ rel"]
    by (simp add: butlast_append)
  from move_file_ok [OF fs1(2) m1s m1d m1p] obtain fs2 where fs2:
    "move fs1 ?s ?d = Inr fs2" "wf_fs fs2"
    "\<And>q. map_of fs2 q = (if q = ?d then Some (File c) else if q = ?s then None else map_of fs1 q)"
    by auto
  have m2: "\<And>q. map_of fs2 q = (if q = ?d then Some (File c) else if q = ?s then None
      else if prefix q (R @ rel) then Some Dir else map_of fs q)"
    using fs2(3) fs1(3) by simp
  have fnot: "f \<notin> set files" and dist: "distinct files" using Cons.prems(3) by auto
  have p2: "map_of fs2 [] = Some Dir" using m2 [of "[]"] by simp
  have p4: "\<forall>g\<in>set files. \<exists>c. map_of fs2 (N @ rel @ [g]) = Some (File c)"
  proof
    fix g assume g: "g \<in> set files"
    then obtain cg where cg: "map_of fs (N @ rel @ [g]) = Some (File cg)" using Cons.prems(4) by auto
    have "\<not> prefix (N @ rel @ [g]) (R @ rel)" using nf [of "N @ rel @ [g]"] cg by (auto simp: isfile_iff)
    moreover have "N @ rel @ [g] \<noteq> ?d" using Cons.prems(7) by auto
    moreover have "N @ rel @ [g] \<noteq> ?s" using g fnot by auto
    ultimately show "\<exists>c. map_of fs2 (N @ rel @ [g]) = Some (File c)" using m2 cg by simp
  qed
  have p5: "\<forall>q. prefix q (R @ rel) \<longrightarrow> \<not> isfile fs2 q"
  proof (intro allI impI)
    fix q assume q: "prefix q (R @ rel)"
    then have "q \<noteq> ?d" "q \<noteq> ?s" using d_npre s_npre by auto
    with q m2 show "\<not> isfile fs2 q" by (simp add: isfile_iff)
  qed
  have p6: "\<forall>g\<in>set files. map_of fs2 (R @ rel @ [g]) \<noteq> Some Dir"
  proof
    fix g assume g: "g \<in> set files"
    have "\<not> prefix (R @ rel @ [g]) (R @ rel)"
      by (metis append.assoc append_self_conv prefix_order.antisym prefix_append not_Cons_self2 prefixI)
    moreover have "R @ rel @ [g] \<noteq> ?s" using Cons.prems(7) by auto
    ultimately show "map_of fs2 (R @ rel @ [g]) \<noteq> Some Dir"
      using m2 [of "R @ rel @ [g]"] Cons.prems(6) g by auto
  qed
  from Cons.IH [OF fs2(2) p2 dist p4 p5 p6 Cons.prems(7)] obtain fs' where fs':
    "move_files N R (N @ rel) files fs2 = Inr fs'" "wf_fs fs'"
    "\<And>g. g \<in> set files \<Longrightarrow> map_of fs' (N @ rel @ [g]) = None
            \<and> map_of fs' (R @ rel @ [g]) = map_of fs2 (N @ rel @ [g])"
    "\<And>q. (\<forall>g\<in>set files. q \<noteq> N @ rel @ [g] \<and> q \<noteq> R @ rel @ [g]) \<Longrightarrow>
            map_of fs' q = map_of fs2 q
            \<or> (prefix q (R @ rel) \<and> map_of fs2 q = None \<and> map_of fs' q = Some Dir)"
    by blast
  have run: "move_files N R (N @ rel) (f # files) fs = Inr fs'"
    using fs1(1) fs2(1) fs'(1) by (simp add: relpath_def)
  have other_s: "\<forall>g\<in>set files. ?s \<noteq> N @ rel @ [g] \<and> ?s \<noteq> R @ rel @ [g]"
    using fnot Cons.prems(7) by auto
  have other_d: "\<forall>g\<in>set files. ?d \<noteq> N @ rel @ [g] \<and> ?d \<noteq> R @ rel @ [g]"
    using fnot Cons.prems(7) by auto
  have rs: "map_of fs' ?s = None"
    using fs'(4) [OF other_s] m2 [of ?s] sd s_npre by auto
  have rd: "map_of fs' ?d = map_of fs ?s"
    using fs'(4) [OF other_d] m2 [of ?d] c by auto
  have c3: "\<forall>g\<in>set (f # files). map_of fs' (N @ rel @ [g]) = None
            \<and> map_of fs' (R @ rel @ [g]) = map_of fs (N @ rel @ [g])"
  proof
    fix g assume "g \<in> set (f # files)"
    then consider "g = f" | "g \<in> set files" by auto
    then show "map_of fs' (N @ rel @ [g]) = None
            \<and> map_of fs' (R @ rel @ [g]) = map_of fs (N @ rel @ [g])"
    proof cases
      case 1
      with rs rd show ?thesis by simp
    next
      case 2
      then obtain cg where cg: "map_of fs (N @ rel @ [g]) = Some (File cg)" using Cons.prems(4) by auto
      have "\<not> prefix (N @ rel @ [g]) (R @ rel)" using nf [of "N @ rel @ [g]"] cg by (auto simp: isfile_iff)
      moreover have "N @ rel @ [g] \<noteq> ?d" using Cons.prems(7) by auto
      moreover have "N @ rel @ [g] \<noteq> ?s" using 2 fnot by auto
      ultimately have "map_of fs2 (N @ rel @ [g]) = map_of fs (N @ rel @ [g])" using m2 by simp
      with fs'(3) [OF 2] show ?thesis by simp
    qed
  qed
  have c4: "\<forall>q. (\<forall>g\<in>set (f # files). q \<noteq> N @ rel @ [g] \<and> q \<noteq> R @ rel @ [g]) \<longrightarrow>
            map_of fs' q = map_of fs q
            \<or> (prefix q (R @ rel) \<and> map_of fs q = None \<and> map_of fs' q = Some Dir)"
  proof (intro allI impI)
    fix q assume q: "\<forall>g\<in>set (f # files). q \<noteq> N @ rel @ [g] \<and> q \<noteq> R @ rel @ [g]"
    then have qs: "q \<noteq> ?s" "q \<noteq> ?d" and qo: "\<forall>g\<in>set files. q \<noteq> N @ rel @ [g] \<and> q \<noteq> R @ rel @ [g]"
      by auto
    have q2: "map_of fs2 q = (if prefix q (R @ rel) then Some Dir else map_of fs q)"
      using m2 [of q] qs by simp
    show "map_of fs' q = map_of fs q
            \<or> (prefix q (R @ rel) \<and> map_of fs q = None \<and> map_of fs' q = Some Dir)"
    proof (cases "prefix q (R @ rel)")
      case True
      with q2 fs'(4) [OF qo] have r: "map_of fs' q = Some Dir" by auto
      from True nf [of q] have "map_of fs q = None \<or> map_of fs q = Some Dir"
        by (cases "map_of fs q") (auto simp: isfile_iff intro: node.exhaust)
      with r True show ?thesis by auto
    next
      case False
      with q2 fs'(4) [OF qo] show ?thesis by auto
    qed
  qed
  from run fs'(2) c3 c4 show ?case by blast
qed

section \<open>TreeMerger: the walk\<close>

lemma mergeableD:
  assumes "mergeable fs N R S" "map_of fs (N @ rel) = Some n"
  shows "\<not> prefix S (R @ rel)" "n = Dir \<Longrightarrow> \<not> isfile fs (R @ rel)" "n \<noteq> Dir \<Longrightarrow> \<not> isdir fs (R @ rel)"
proof -
  from assms(2) have "(N @ rel, n) \<in> set fs" by (rule map_of_SomeD)
  with assms(1) have "\<not> prefix S (R @ relpath (N @ rel) N)
      \<and> (n = Dir \<longrightarrow> \<not> isfile fs (R @ relpath (N @ rel) N))
      \<and> (n \<noteq> Dir \<longrightarrow> \<not> isdir fs (R @ relpath (N @ rel) N))"
    unfolding mergeable_def by fastforce
  then show "\<not> prefix S (R @ rel)" "n = Dir \<Longrightarrow> \<not> isfile fs (R @ rel)" "n \<noteq> Dir \<Longrightarrow> \<not> isdir fs (R @ rel)"
    by (simp_all add: relpath_def)
qed

lemma mergeable_facts:
  assumes "mergeable fs N R S"
  shows "wf_fs fs" "map_of fs N = Some Dir" "map_of fs R = Some Dir" "prefix S N" "\<not> prefix S R"
    "N \<noteq> []" "map_of fs [] = Some Dir"
proof -
  show wf: "wf_fs fs" and n: "map_of fs N = Some Dir" and "map_of fs R = Some Dir" and sn: "prefix S N"
    using assms by (simp_all add: mergeable_def isdir_def)
  show nsr: "\<not> prefix S R" using mergeableD(1) [OF assms, of "[]" Dir] n by simp
  show "N \<noteq> []" using sn nsr by auto
  then show "map_of fs [] = Some Dir" using wf_root [OF wf n] by simp
qed

lemma pending_Cons: "pending (s # stack) q \<longleftrightarrow> prefix s q \<or> pending stack q"
  by (simp add: pending_def)

lemma pending_append: "pending (xs @ ys) q \<longleftrightarrow> pending xs q \<or> pending ys q"
  by (auto simp: pending_def)

lemma pending_children:
  "pending (map (\<lambda>d. dir @ [d]) dirs) q \<longleftrightarrow> (\<exists>d\<in>set dirs. prefix (dir @ [d]) q)"
  by (auto simp: pending_def)

lemma walk_step:
  assumes G: "mergeable fs0 N R S"
    and I: "walk_inv fs0 N R S fs (tp # rest)"
  shows "\<exists>dirs files fs1. scandir fs tp = Some (dirs, files)
      \<and> move_files N R tp files fs = Inr fs1
      \<and> walk_inv fs0 N R S fs1 (map (\<lambda>d. tp @ [d]) dirs @ rest)
      \<and> \<not> pending (map (\<lambda>d. tp @ [d]) dirs @ rest) tp
      \<and> (\<forall>q. pending (map (\<lambda>d. tp @ [d]) dirs @ rest) q \<longrightarrow> pending (tp # rest) q)"
proof -
  note gf = mergeable_facts [OF G]
  have wf0: "wf_fs fs0" by (rule gf(1))
  note I' = I [unfolded walk_inv_def]
  note c1 = I' [THEN conjunct1]
  note c2 = I' [THEN conjunct2, THEN conjunct1]
  note c3 = I' [THEN conjunct2, THEN conjunct2, THEN conjunct1]
  note c4 = I' [THEN conjunct2, THEN conjunct2, THEN conjunct2, THEN conjunct1]
  note c5 = I' [THEN conjunct2, THEN conjunct2, THEN conjunct2, THEN conjunct2, THEN conjunct1]
  note c6 = I' [THEN conjunct2, THEN conjunct2, THEN conjunct2, THEN conjunct2, THEN conjunct2,
    THEN conjunct1]
  note c7 = I' [THEN conjunct2, THEN conjunct2, THEN conjunct2, THEN conjunct2, THEN conjunct2,
    THEN conjunct2, THEN conjunct1]
  note c8 = I' [THEN conjunct2, THEN conjunct2, THEN conjunct2, THEN conjunct2, THEN conjunct2,
    THEN conjunct2, THEN conjunct2, THEN conjunct1]
  note c9 = I' [THEN conjunct2, THEN conjunct2, THEN conjunct2, THEN conjunct2, THEN conjunct2,
    THEN conjunct2, THEN conjunct2, THEN conjunct2]
  have wf: "wf_fs fs" by (rule c1)
  have root: "map_of fs [] = Some Dir" by (rule c2)
  have st: "\<And>s. s \<in> set (tp # rest) \<Longrightarrow> prefix N s \<and> map_of fs0 s = Some Dir"
    by (rule c3 [rule_format])
  have dst: "distinct (tp # rest)" by (rule c4)
  have inc: "\<And>s t. s \<in> set (tp # rest) \<Longrightarrow> t \<in> set (tp # rest) \<Longrightarrow> prefix s t \<Longrightarrow> s = t"
    by (rule c5 [rule_format])
  have pen: "\<And>q. pending (tp # rest) q \<Longrightarrow> map_of fs q = map_of fs0 q"
    by (rule c6 [rule_format])
  have anc: "\<And>q. prefix q N \<Longrightarrow> map_of fs q = Some Dir"
    by (rule c7 [rule_format])
  have mov: "\<And>r c. map_of fs0 (N @ r) = Some (File c) \<Longrightarrow> \<not> pending (tp # rest) (N @ r) \<Longrightarrow>
            map_of fs (R @ r) = Some (File c)"
    by (rule c8 [rule_format, OF conjI])
  have oth: "\<And>q. \<not> prefix S q \<Longrightarrow>
            \<not> (\<exists>r c. q = R @ r \<and> map_of fs0 (N @ r) = Some (File c) \<and> \<not> pending (tp # rest) (N @ r)) \<Longrightarrow>
            map_of fs q = map_of fs0 q
            \<or> (map_of fs0 q = None \<and> map_of fs q = Some Dir
                \<and> (\<exists>r. q = R @ r \<and> map_of fs0 (N @ r) = Some Dir))"
    by (rule c9 [rule_format, OF conjI])
  from st [of tp] obtain rel where tp: "tp = N @ rel" and top0: "map_of fs0 tp = Some Dir"
    by (auto simp: prefix_def)
  have ptop: "\<And>q. prefix tp q \<Longrightarrow> pending (tp # rest) q" by (simp add: pending_Cons)
  have mtop: "map_of fs tp = Some Dir" using pen [OF ptop [of tp]] top0 by simp
  have topnr: "tp \<notin> set rest" using dst by simp
  have SN: "prefix S N" by (rule gf(4))
  have Stop: "\<And>q. prefix tp q \<Longrightarrow> prefix S q"
    using SN tp by (metis prefix_order.trans prefixI)
  have nSRrel: "\<not> prefix S (R @ rel)" using mergeableD(1) [OF G, of rel Dir] top0 tp by simp
  from scandir_ok [OF wf mtop] obtain dirs files where sc:
    "scandir fs tp = Some (dirs, files)" "distinct dirs" "distinct files"
    "set dirs = {n. map_of fs (tp @ [n]) = Some Dir}"
    "set files = {n. \<exists>c. map_of fs (tp @ [n]) = Some (File c)}"
    by blast
  let ?st' = "map (\<lambda>d. tp @ [d]) dirs @ rest"
  have file0: "\<And>f. f \<in> set files \<Longrightarrow> \<exists>c. map_of fs (tp @ [f]) = Some (File c)
      \<and> map_of fs0 (tp @ [f]) = Some (File c)"
    using sc(5) pen [OF ptop] by fastforce
  have dir0: "\<And>d. d \<in> set dirs \<Longrightarrow> map_of fs0 (tp @ [d]) = Some Dir"
    using sc(4) pen [OF ptop] by fastforce
  have nS_file: "\<And>f. f \<in> set files \<Longrightarrow> \<not> prefix S (R @ rel @ [f])"
  proof -
    fix f assume "f \<in> set files"
    from file0 [OF this] obtain c where "map_of fs0 (N @ rel @ [f]) = Some (File c)" using tp by auto
    from mergeableD(1) [OF G this] show "\<not> prefix S (R @ rel @ [f])" .
  qed
  \<comment> \<open>the prefixes of the directory to make\<close>
  have pre_cases: "\<And>q. prefix q (R @ rel) \<Longrightarrow> prefix q R \<or> (\<exists>r. q = R @ r \<and> prefix r rel)"
    by (auto simp: prefix_append)
  have preR0: "\<And>q. prefix q R \<Longrightarrow> map_of fs0 q = Some Dir"
    using wf_prefix_dir [OF wf0 gf(3)] gf(3) by (auto simp: strict_prefix_def)
  have preN0: "\<And>r. prefix r rel \<Longrightarrow> map_of fs0 (N @ r) = Some Dir"
  proof -
    fix r assume "prefix r rel"
    then have "prefix (N @ r) tp" using tp by simp
    then show "map_of fs0 (N @ r) = Some Dir"
      using wf_prefix_dir [OF wf0 top0, of "N @ r"] top0 by (auto simp: strict_prefix_def)
  qed
  have nS_pre: "\<And>q. prefix q (R @ rel) \<Longrightarrow> \<not> prefix S q"
    using nSRrel by (meson prefix_order.trans)
  have a5: "\<forall>q. prefix q (R @ rel) \<longrightarrow> \<not> isfile fs q"
  proof (intro allI impI notI)
    fix q assume q: "prefix q (R @ rel)" and "isfile fs q"
    then obtain c where c: "map_of fs q = Some (File c)" by (auto simp: isfile_iff)
    have q0: "map_of fs0 q = Some Dir \<or> (\<exists>r. q = R @ r \<and> prefix r rel)"
      using pre_cases [OF q] preR0 by blast
    have notmoved: "\<not> (\<exists>r c. q = R @ r \<and> map_of fs0 (N @ r) = Some (File c) \<and> \<not> pending (tp # rest) (N @ r))"
    proof
      assume "\<exists>r c. q = R @ r \<and> map_of fs0 (N @ r) = Some (File c) \<and> \<not> pending (tp # rest) (N @ r)"
      then obtain r c' where r: "q = R @ r" "map_of fs0 (N @ r) = Some (File c')" by blast
      with q have "prefix r rel" by simp
      from preN0 [OF this] r(2) show False by simp
    qed
    from oth [OF nS_pre [OF q] notmoved] c have m0: "map_of fs0 q = Some (File c)" by auto
    with q0 obtain r where r: "q = R @ r" "prefix r rel" by auto
    from mergeableD(2) [OF G preN0 [OF r(2)]] m0 r(1) show False by (simp add: isfile_iff)
  qed
  have a6: "\<forall>f\<in>set files. map_of fs (R @ rel @ [f]) \<noteq> Some Dir"
  proof
    fix f assume f: "f \<in> set files"
    from file0 [OF f] obtain c where c: "map_of fs0 (N @ rel @ [f]) = Some (File c)" using tp by auto
    have nS: "\<not> prefix S (R @ rel @ [f])" and nd: "\<not> isdir fs0 (R @ rel @ [f])"
      using mergeableD(1,3) [OF G c] by auto
    have pend: "pending (tp # rest) (N @ rel @ [f])" using ptop [of "tp @ [f]"] tp by simp
    have "\<not> (\<exists>r c. R @ rel @ [f] = R @ r \<and> map_of fs0 (N @ r) = Some (File c) \<and> \<not> pending (tp # rest) (N @ r))"
      using pend by auto
    from oth [OF nS this] c nd show "map_of fs (R @ rel @ [f]) \<noteq> Some Dir"
      by (auto simp: isdir_def)
  qed
  have a7: "R @ rel \<noteq> N @ rel" using nSRrel Stop [of tp] tp by auto
  have a4: "\<forall>f\<in>set files. \<exists>c. map_of fs (N @ rel @ [f]) = Some (File c)"
    using file0 tp by auto
  from move_files_ok [OF wf root sc(3) a4 a5 a6 a7] obtain fs1 where fs1:
    "move_files N R (N @ rel) files fs = Inr fs1" "wf_fs fs1"
    "\<And>f. f \<in> set files \<Longrightarrow> map_of fs1 (N @ rel @ [f]) = None
            \<and> map_of fs1 (R @ rel @ [f]) = map_of fs (N @ rel @ [f])"
    "\<And>q. (\<forall>f\<in>set files. q \<noteq> N @ rel @ [f] \<and> q \<noteq> R @ rel @ [f]) \<Longrightarrow>
            map_of fs1 q = map_of fs q
            \<or> (prefix q (R @ rel) \<and> map_of fs q = None \<and> map_of fs1 q = Some Dir)"
    by blast
  \<comment> \<open>the new stack\<close>
  have pen'_old: "\<And>q. pending ?st' q \<Longrightarrow> pending (tp # rest) q"
    by (auto simp: pending_append pending_children pending_Cons dest: append_prefixD)
  have rest_top: "\<And>s. s \<in> set rest \<Longrightarrow> \<not> prefix s tp"
    using inc [of _ tp] topnr by auto
  have rest_child: "\<And>s x. s \<in> set rest \<Longrightarrow> prefix s (tp @ [x]) \<Longrightarrow> s = tp @ [x]"
    using rest_top by (auto simp: prefix_snoc)
  have top_np: "\<not> pending ?st' tp"
    using rest_top by (auto simp: pending_append pending_children pending_def)
  have file_np: "\<And>f. f \<in> set files \<Longrightarrow> \<not> pending ?st' (tp @ [f])"
  proof
    fix f assume f: "f \<in> set files" and "pending ?st' (tp @ [f])"
    then consider d where "d \<in> set dirs" "prefix (tp @ [d]) (tp @ [f])"
      | s where "s \<in> set rest" "prefix s (tp @ [f])"
      by (auto simp: pending_append pending_children pending_def)
    then show False
    proof cases
      case 1
      then have "d = f" by simp
      with 1(1) f sc(4,5) show False by auto
    next
      case 2
      then have "s = tp @ [f]" by (rule rest_child)
      with st [of s] 2(1) file0 [OF f] show False by auto
    qed
  qed
  have under_top: "\<And>q n. map_of fs0 q = Some n \<Longrightarrow> prefix tp q \<Longrightarrow> \<not> pending ?st' q \<Longrightarrow>
      q = tp \<or> (\<exists>f\<in>set files. q = tp @ [f])"
  proof -
    fix q n assume q0: "map_of fs0 q = Some n" and pq: "prefix tp q" and np: "\<not> pending ?st' q"
    show "q = tp \<or> (\<exists>f\<in>set files. q = tp @ [f])"
    proof (cases "q = tp")
      case False
      with pq obtain x xs where q: "q = tp @ x # xs" by (auto simp: prefix_def) (metis list.exhaust append_Nil2)
      have nd: "map_of fs0 (tp @ [x]) \<noteq> Some Dir"
      proof
        assume "map_of fs0 (tp @ [x]) = Some Dir"
        then have "x \<in> set dirs" using sc(4) pen [OF ptop, of "tp @ [x]"] by simp
        then have "pending ?st' q" using q by (auto simp: pending_append pending_children)
        with np show False by simp
      qed
      have "xs = []"
      proof (rule ccontr)
        assume "xs \<noteq> []"
        then have "strict_prefix (tp @ [x]) q" using q by (auto simp: strict_prefix_def)
        from wf_prefix_dir [OF wf0 q0 this] nd show False by simp
      qed
      with q q0 nd obtain c where "map_of fs0 (tp @ [x]) = Some (File c)" by (cases n) auto
      then have "x \<in> set files" using sc(5) pen [OF ptop, of "tp @ [x]"] by simp
      with q \<open>xs = []\<close> show ?thesis by auto
    qed simp
  qed
  \<comment> \<open>the invariant after the step\<close>
  have i2: "map_of fs1 [] = Some Dir" using fs1(4) [of "[]"] root by auto
  have i3: "\<forall>s\<in>set ?st'. prefix N s \<and> map_of fs0 s = Some Dir"
    using st dir0 tp by auto
  have i4: "distinct ?st'"
  proof -
    have "distinct (map (\<lambda>d. tp @ [d]) dirs)" using sc(2) by (simp add: distinct_map inj_on_def)
    moreover have "tp @ [d] \<notin> set rest" for d
      using rest_top [of "tp @ [d]"] inc [of tp "tp @ [d]"] by auto
    ultimately show ?thesis using dst by auto
  qed
  have i5: "\<forall>s\<in>set ?st'. \<forall>t\<in>set ?st'. prefix s t \<longrightarrow> s = t"
  proof (intro ballI impI)
    fix s t assume s: "s \<in> set ?st'" and t: "t \<in> set ?st'" and p: "prefix s t"
    from s consider d where "d \<in> set dirs" "s = tp @ [d]" | "s \<in> set rest" by auto
    then show "s = t"
    proof cases
      case 1
      from t consider e where "e \<in> set dirs" "t = tp @ [e]" | "t \<in> set rest" by auto
      then show ?thesis
      proof cases
        case 1
        with \<open>s = tp @ [d]\<close> p show ?thesis by simp
      next
        case 2
        have "prefix tp t" using p 1(2) by (metis append_prefixD)
        with inc [of tp t] 2 topnr show ?thesis by auto
      qed
    next
      case 2
      from t consider e where "e \<in> set dirs" "t = tp @ [e]" | "t \<in> set rest" by auto
      then show ?thesis
      proof cases
        case 1
        with rest_child [OF 2] p show ?thesis by simp
      next
        case 2
        with \<open>s \<in> set rest\<close> inc [of s t] p show ?thesis by simp
      qed
    qed
  qed
  have i6: "\<forall>q. pending ?st' q \<longrightarrow> map_of fs1 q = map_of fs0 q"
  proof (intro allI impI)
    fix q assume pq: "pending ?st' q"
    then have po: "pending (tp # rest) q" by (rule pen'_old)
    then obtain s where s: "s \<in> set (tp # rest)" "prefix s q" by (auto simp: pending_def)
    with st [of s] have Nq: "prefix N q" by (meson prefix_order.trans)
    then have Sq: "prefix S q" using SN by (meson prefix_order.trans)
    have "\<forall>f\<in>set files. q \<noteq> N @ rel @ [f] \<and> q \<noteq> R @ rel @ [f]"
    proof
      fix f assume f: "f \<in> set files"
      have "q \<noteq> tp @ [f]" using file_np [OF f] pq by auto
      moreover have "q \<noteq> R @ rel @ [f]"
        using Sq nS_file [OF f] by auto
      ultimately show "q \<noteq> N @ rel @ [f] \<and> q \<noteq> R @ rel @ [f]" using tp by simp
    qed
    from fs1(4) [OF this] nS_pre [of q] Sq have "map_of fs1 q = map_of fs q" by auto
    with pen [OF po] show "map_of fs1 q = map_of fs0 q" by simp
  qed
  have i7: "\<forall>q. prefix q N \<longrightarrow> map_of fs1 q = Some Dir"
  proof (intro allI impI)
    fix q assume q: "prefix q N"
    have mq: "map_of fs q = Some Dir" by (rule anc [OF q])
    have "\<forall>f\<in>set files. q \<noteq> N @ rel @ [f] \<and> q \<noteq> R @ rel @ [f]"
    proof
      fix f assume f: "f \<in> set files"
      have "q \<noteq> N @ rel @ [f]" using q by (auto simp: prefix_def)
      moreover have "q \<noteq> R @ rel @ [f]" using a6 f mq by auto
      ultimately show "q \<noteq> N @ rel @ [f] \<and> q \<noteq> R @ rel @ [f]" by simp
    qed
    from fs1(4) [OF this] mq show "map_of fs1 q = Some Dir" by auto
  qed
  have i8: "\<forall>r c. map_of fs0 (N @ r) = Some (File c) \<and> \<not> pending ?st' (N @ r) \<longrightarrow>
            map_of fs1 (R @ r) = Some (File c)"
  proof (intro allI impI, elim conjE)
    fix r c assume r0: "map_of fs0 (N @ r) = Some (File c)" and np: "\<not> pending ?st' (N @ r)"
    have nS: "\<not> prefix S (R @ r)" using mergeableD(1) [OF G r0] .
    show "map_of fs1 (R @ r) = Some (File c)"
    proof (cases "pending (tp # rest) (N @ r)")
      case False
      from mov [OF r0 False] have m: "map_of fs (R @ r) = Some (File c)" .
      have "\<forall>f\<in>set files. R @ r \<noteq> N @ rel @ [f] \<and> R @ r \<noteq> R @ rel @ [f]"
      proof
        fix f assume f: "f \<in> set files"
        have "R @ r \<noteq> N @ rel @ [f]" using nS Stop [of "tp @ [f]"] tp by auto
        moreover have "R @ r \<noteq> R @ rel @ [f]"
        proof
          assume "R @ r = R @ rel @ [f]"
          then have "N @ r = tp @ [f]" using tp by simp
          with ptop [of "tp @ [f]"] False show False by simp
        qed
        ultimately show "R @ r \<noteq> N @ rel @ [f] \<and> R @ r \<noteq> R @ rel @ [f]" by simp
      qed
      from fs1(4) [OF this] m show ?thesis by auto
    next
      case True
      have "prefix tp (N @ r)"
      proof (rule ccontr)
        assume "\<not> prefix tp (N @ r)"
        with True have "pending rest (N @ r)" by (simp add: pending_Cons)
        with np show False by (simp add: pending_append)
      qed
      from under_top [OF r0 this np] top0 r0 obtain f where f: "f \<in> set files" "N @ r = tp @ [f]"
        by auto
      then have r: "r = rel @ [f]" using tp by simp
      from fs1(3) [OF f(1)] file0 [OF f(1)] r0 f(2) tp r show ?thesis by auto
    qed
  qed
  have i9: "\<forall>q. \<not> prefix S q
            \<and> \<not> (\<exists>r c. q = R @ r \<and> map_of fs0 (N @ r) = Some (File c) \<and> \<not> pending ?st' (N @ r)) \<longrightarrow>
            map_of fs1 q = map_of fs0 q
            \<or> (map_of fs0 q = None \<and> map_of fs1 q = Some Dir
                \<and> (\<exists>r. q = R @ r \<and> map_of fs0 (N @ r) = Some Dir))"
  proof (intro allI impI, elim conjE)
    fix q assume nS: "\<not> prefix S q"
      and nm: "\<not> (\<exists>r c. q = R @ r \<and> map_of fs0 (N @ r) = Some (File c) \<and> \<not> pending ?st' (N @ r))"
    have nm_old: "\<not> (\<exists>r c. q = R @ r \<and> map_of fs0 (N @ r) = Some (File c) \<and> \<not> pending (tp # rest) (N @ r))"
      using nm pen'_old by blast
    note o = oth [OF nS nm_old]
    have other: "\<forall>f\<in>set files. q \<noteq> N @ rel @ [f] \<and> q \<noteq> R @ rel @ [f]"
    proof
      fix f assume f: "f \<in> set files"
      have "q \<noteq> N @ rel @ [f]" using nS Stop [of "tp @ [f]"] tp by auto
      moreover have "q \<noteq> R @ rel @ [f]"
      proof
        assume "q = R @ rel @ [f]"
        moreover from file0 [OF f] obtain c where "map_of fs0 (N @ (rel @ [f])) = Some (File c)"
          using tp by auto
        moreover have "\<not> pending ?st' (N @ (rel @ [f]))" using file_np [OF f] tp by simp
        ultimately show False using nm by (metis append.assoc)
      qed
      ultimately show "q \<noteq> N @ rel @ [f] \<and> q \<noteq> R @ rel @ [f]" by simp
    qed
    from fs1(4) [OF other] consider "map_of fs1 q = map_of fs q"
      | "prefix q (R @ rel)" "map_of fs q = None" "map_of fs1 q = Some Dir" by auto
    then show "map_of fs1 q = map_of fs0 q
            \<or> (map_of fs0 q = None \<and> map_of fs1 q = Some Dir
                \<and> (\<exists>r. q = R @ r \<and> map_of fs0 (N @ r) = Some Dir))"
    proof cases
      case 1
      with o show ?thesis by auto
    next
      case 2
      with o have q0: "map_of fs0 q = None" by auto
      from pre_cases [OF 2(1)] preR0 [of q] q0 obtain r where "q = R @ r" "prefix r rel" by auto
      with preN0 [of r] q0 2(3) show ?thesis by auto
    qed
  qed
  have "walk_inv fs0 N R S fs1 ?st'"
    unfolding walk_inv_def by (intro conjI fs1(2) i2 i3 i4 i5 i6 i7 i8 i9)
  with sc(1) fs1(1) tp top_np pen'_old show ?thesis by blast
qed

lemma walk_total:
  assumes G: "mergeable fs0 N R S"
  shows "walk_inv fs0 N R S fs stack \<Longrightarrow>
    \<exists>fs'. walk_loop (move_files N R) fs stack = Some (Inr fs') \<and> walk_inv fs0 N R S fs' []"
proof (induction "card {q \<in> set (map fst fs0). pending stack q}" arbitrary: fs stack rule: less_induct)
  case less
  show ?case
  proof (cases stack)
    case Nil
    have "walk_loop (move_files N R) fs [] = Some (Inr fs)"
      by (subst walk_loop.simps) simp
    with less.prems Nil show ?thesis by simp
  next
    case (Cons tp rest)
    from walk_step [OF G less.prems [unfolded Cons]] obtain dirs files fs1 where step:
      "scandir fs tp = Some (dirs, files)" "move_files N R tp files fs = Inr fs1"
      "walk_inv fs0 N R S fs1 (map (\<lambda>d. tp @ [d]) dirs @ rest)"
      "\<not> pending (map (\<lambda>d. tp @ [d]) dirs @ rest) tp"
      "\<And>q. pending (map (\<lambda>d. tp @ [d]) dirs @ rest) q \<Longrightarrow> pending (tp # rest) q"
      by blast
    let ?st' = "map (\<lambda>d. tp @ [d]) dirs @ rest"
    have "map_of fs0 tp = Some Dir"
      using less.prems Cons unfolding walk_inv_def by simp
    then have tpk: "tp \<in> set (map fst fs0)" by (simp add: keys_iff del: set_map)
    have "{q \<in> set (map fst fs0). pending ?st' q} \<subseteq> {q \<in> set (map fst fs0). pending stack q}"
      using step(5) Cons by auto
    moreover have "tp \<in> {q \<in> set (map fst fs0). pending stack q}"
      using tpk Cons by (simp add: pending_Cons del: set_map)
    moreover have "tp \<notin> {q \<in> set (map fst fs0). pending ?st' q}"
      using step(4) by simp
    ultimately have "{q \<in> set (map fst fs0). pending ?st' q} \<subset> {q \<in> set (map fst fs0). pending stack q}"
      by blast
    then have "card {q \<in> set (map fst fs0). pending ?st' q} < card {q \<in> set (map fst fs0). pending stack q}"
      by (intro psubset_card_mono) auto
    from less.hyps [OF this step(3)] obtain fs' where fs':
      "walk_loop (move_files N R) fs1 ?st' = Some (Inr fs')" "walk_inv fs0 N R S fs' []"
      by blast
    have "walk_loop (move_files N R) fs (tp # rest) = walk_loop (move_files N R) fs1 ?st'"
      by (subst walk_loop.simps) (simp add: step(1,2))
    with fs' Cons show ?thesis by simp
  qed
qed

lemma walk_inv_start:
  assumes G: "mergeable fs0 N R S"
  shows "walk_inv fs0 N R S fs0 [N]"
proof -
  note gf = mergeable_facts [OF G]
  have "\<forall>q. prefix q N \<longrightarrow> map_of fs0 q = Some Dir"
    using wf_prefix_dir [OF gf(1) gf(2)] gf(2) by (auto simp: strict_prefix_def)
  moreover have "\<forall>r c. map_of fs0 (N @ r) = Some (File c) \<and> \<not> pending [N] (N @ r) \<longrightarrow>
            map_of fs0 (R @ r) = Some (File c)"
    by (simp add: pending_def)
  ultimately show ?thesis
    unfolding walk_inv_def using gf(1,2,7) by (simp add: pending_def)
qed

lemma map_of_filter_key:
  "map_of (filter (\<lambda>(q, n). P q) fs) k = (if P k then map_of fs k else None)"
  by (induction fs) auto

lemma merge_general:
  assumes G: "mergeable fs0 N R S"
  shows "\<exists>fs'. move_nested_resources prep ROOT_DIR N R S fs0
        = Some (Inr (fs', [''Moved resources from '' @ path_str ROOT_DIR N @ '' to ''
                           @ path_str ROOT_DIR R @ ''.'']))
     \<and> (\<forall>q. prefix S q \<longrightarrow> map_of fs' q = None)
     \<and> (\<forall>r c. map_of fs0 (N @ r) = Some (File c) \<longrightarrow> map_of fs' (R @ r) = Some (File c))
     \<and> (\<forall>q. \<not> prefix S q \<and> \<not> (\<exists>r c. q = R @ r \<and> map_of fs0 (N @ r) = Some (File c)) \<longrightarrow>
            map_of fs' q = map_of fs0 q
            \<or> (map_of fs0 q = None \<and> map_of fs' q = Some Dir
                \<and> (\<exists>r. q = R @ r \<and> map_of fs0 (N @ r) = Some Dir)))"
proof -
  note gf = mergeable_facts [OF G]
  from walk_total [OF G walk_inv_start [OF G]] obtain fs1 where fs1:
    "walk_loop (move_files N R) fs0 [N] = Some (Inr fs1)" "walk_inv fs0 N R S fs1 []"
    by blast
  note I' = fs1(2) [unfolded walk_inv_def]
  note c7 = I' [THEN conjunct2, THEN conjunct2, THEN conjunct2, THEN conjunct2, THEN conjunct2,
    THEN conjunct2, THEN conjunct1]
  note c8 = I' [THEN conjunct2, THEN conjunct2, THEN conjunct2, THEN conjunct2, THEN conjunct2,
    THEN conjunct2, THEN conjunct2, THEN conjunct1]
  note c9 = I' [THEN conjunct2, THEN conjunct2, THEN conjunct2, THEN conjunct2, THEN conjunct2,
    THEN conjunct2, THEN conjunct2, THEN conjunct2]
  have S1: "map_of fs1 S = Some Dir" using c7 [rule_format, OF gf(4)] .
  let ?fs2 = "filter (\<lambda>(q, n). \<not> prefix S q) fs1"
  have rm: "rmtree fs1 S = Inr ?fs2" using S1 by (simp add: rmtree_def)
  have m2: "\<And>q. map_of ?fs2 q = (if prefix S q then None else map_of fs1 q)"
    by (simp add: map_of_filter_key)
  have run: "move_nested_resources prep ROOT_DIR N R S fs0
        = Some (Inr (?fs2, [''Moved resources from '' @ path_str ROOT_DIR N @ '' to ''
                           @ path_str ROOT_DIR R @ ''.'']))"
    using gf(2) fs1(1) rm by (simp add: move_nested_resources_def path_exists_def)
  have r1: "\<forall>q. prefix S q \<longrightarrow> map_of ?fs2 q = None" using m2 by simp
  have r2: "\<forall>r c. map_of fs0 (N @ r) = Some (File c) \<longrightarrow> map_of ?fs2 (R @ r) = Some (File c)"
  proof (intro allI impI)
    fix r c assume r0: "map_of fs0 (N @ r) = Some (File c)"
    have "\<not> prefix S (R @ r)" using mergeableD(1) [OF G r0] .
    moreover have "map_of fs1 (R @ r) = Some (File c)"
      using c8 [rule_format, of r c] r0 by (simp add: pending_def)
    ultimately show "map_of ?fs2 (R @ r) = Some (File c)" using m2 by simp
  qed
  have r3: "\<forall>q. \<not> prefix S q \<and> \<not> (\<exists>r c. q = R @ r \<and> map_of fs0 (N @ r) = Some (File c)) \<longrightarrow>
            map_of ?fs2 q = map_of fs0 q
            \<or> (map_of fs0 q = None \<and> map_of ?fs2 q = Some Dir
                \<and> (\<exists>r. q = R @ r \<and> map_of fs0 (N @ r) = Some Dir))"
  proof (intro allI impI, elim conjE)
    fix q assume nS: "\<not> prefix S q" and nm: "\<not> (\<exists>r c. q = R @ r \<and> map_of fs0 (N @ r) = Some (File c))"
    have "\<not> (\<exists>r c. q = R @ r \<and> map_of fs0 (N @ r) = Some (File c) \<and> \<not> pending [] (N @ r))"
      using nm by blast
    from c9 [rule_format, OF conjI, OF nS this] m2 [of q] nS
    show "map_of ?fs2 q = map_of fs0 q
            \<or> (map_of fs0 q = None \<and> map_of ?fs2 q = Some Dir
                \<and> (\<exists>r. q = R @ r \<and> map_of fs0 (N @ r) = Some Dir))"
      by simp
  qed
  from run r1 r2 r3 show ?thesis by blast
qed

section \<open>TreeMerger: the moves of fix\_resources.py\<close>

lemma move_each_ok:
  assumes "wf_fs fs" "isdir fs D" "V \<noteq> D" "distinct names"
    "\<forall>f\<in>set names. isfile fs (V @ [f]) \<and> \<not> isdir fs (D @ [f])"
  shows "\<exists>fs'. move_each V D names fs = Inr fs' \<and> wf_fs fs'
     \<and> (\<forall>f\<in>set names. map_of fs' (D @ [f]) = map_of fs (V @ [f]) \<and> map_of fs' (V @ [f]) = None)
     \<and> (\<forall>q. (\<forall>f\<in>set names. q \<noteq> D @ [f] \<and> q \<noteq> V @ [f]) \<longrightarrow> map_of fs' q = map_of fs q)"
  using assms
proof (induction names arbitrary: fs)
  case Nil
  then show ?case by simp
next
  case (Cons f names)
  from Cons.prems(5) obtain c where c: "map_of fs (V @ [f]) = Some (File c)"
    by (auto simp: isfile_iff)
  have D: "map_of fs D = Some Dir" using Cons.prems(2) by (simp add: isdir_def)
  have nd: "map_of fs (D @ [f]) \<noteq> Some Dir" using Cons.prems(5) by (simp add: isdir_def)
  from move_file_ok [OF Cons.prems(1) c nd] D obtain fs1 where fs1:
    "move fs (V @ [f]) (D @ [f]) = Inr fs1" "wf_fs fs1"
    "\<And>q. map_of fs1 q = (if q = D @ [f] then Some (File c)
                           else if q = V @ [f] then None else map_of fs q)"
    by auto
  have DV: "D \<noteq> V @ [f]" using c D by auto
  have D1: "isdir fs1 D" using fs1(3) [of D] D DV by (simp add: isdir_def)
  have keep: "map_of fs1 (V @ [g]) = map_of fs (V @ [g]) \<and> map_of fs1 (D @ [g]) = map_of fs (D @ [g])"
    if "g \<in> set names" for g
  proof -
    from that Cons.prems(4) have "g \<noteq> f" by auto
    then show ?thesis using fs1(3) Cons.prems(3) by auto
  qed
  have h5: "\<forall>g\<in>set names. isfile fs1 (V @ [g]) \<and> \<not> isdir fs1 (D @ [g])"
    using keep Cons.prems(5) by (simp add: isfile_def isdir_def)
  from Cons.IH [OF fs1(2) D1 Cons.prems(3) _ h5] Cons.prems(4) obtain fs' where fs':
    "move_each V D names fs1 = Inr fs'" "wf_fs fs'"
    "\<And>g. g \<in> set names \<Longrightarrow> map_of fs' (D @ [g]) = map_of fs1 (V @ [g]) \<and> map_of fs' (V @ [g]) = None"
    "\<And>q. (\<forall>g\<in>set names. q \<noteq> D @ [g] \<and> q \<noteq> V @ [g]) \<Longrightarrow> map_of fs' q = map_of fs1 q"
    by auto
  have run: "move_each V D (f # names) fs = Inr fs'" using fs1(1) fs'(1) by simp
  have nf: "f \<notin> set names" using Cons.prems(4) by simp
  have fD: "map_of fs' (D @ [f]) = map_of fs (V @ [f])"
  proof -
    have "\<forall>g\<in>set names. D @ [f] \<noteq> D @ [g] \<and> D @ [f] \<noteq> V @ [g]"
      using nf Cons.prems(3) by auto
    from fs'(4) [OF this] show ?thesis using fs1(3) [of "D @ [f]"] c by simp
  qed
  have fV: "map_of fs' (V @ [f]) = None"
  proof -
    have "\<forall>g\<in>set names. V @ [f] \<noteq> D @ [g] \<and> V @ [f] \<noteq> V @ [g]"
      using nf Cons.prems(3) by auto
    from fs'(4) [OF this] show ?thesis using fs1(3) [of "V @ [f]"] Cons.prems(3) by auto
  qed
  have moved: "\<forall>g\<in>set (f # names). map_of fs' (D @ [g]) = map_of fs (V @ [g]) \<and> map_of fs' (V @ [g]) = None"
    using fD fV fs'(3) keep by auto
  have rest: "\<forall>q. (\<forall>g\<in>set (f # names). q \<noteq> D @ [g] \<and> q \<noteq> V @ [g]) \<longrightarrow> map_of fs' q = map_of fs q"
  proof (intro allI impI)
    fix q assume q: "\<forall>g\<in>set (f # names). q \<noteq> D @ [g] \<and> q \<noteq> V @ [g]"
    then have "map_of fs' q = map_of fs1 q" using fs'(4) [of q] by simp
    also have "\<dots> = map_of fs q" using fs1(3) [of q] q by simp
    finally show "map_of fs' q = map_of fs q" .
  qed
  from run fs'(2) moved rest show ?case by blast
qed

lemma move_views_ok:
  assumes wf: "wf_fs fs" and V: "isdir fs VIEWS_SRC" and D: "isdir fs APP_VIEWS_DIR"
    and ch: "\<forall>(name, n)\<in>set (children fs VIEWS_SRC). n \<noteq> Dir \<and> \<not> isdir fs (APP_VIEWS_DIR @ [name])"
  shows "\<exists>fs'. move_views ROOT_DIR fs
        = Inr (fs', [''Moved Views to '' @ path_str ROOT_DIR APP_VIEWS_DIR])
     \<and> (\<forall>f c. map_of fs (VIEWS_SRC @ [f]) = Some (File c) \<longrightarrow>
           map_of fs' (APP_VIEWS_DIR @ [f]) = Some (File c) \<and> map_of fs' (VIEWS_SRC @ [f]) = None)"
proof -
  from wf have d: "distinct (map fst fs)" by (simp add: wf_fs_def)
  let ?names = "map fst (children fs VIEWS_SRC)"
  have ls: "listdir fs VIEWS_SRC = Inr ?names" using V by (simp add: listdir_def isdir_def)
  have dn: "distinct ?names" using d by (rule children_distinct)
  have ne: "VIEWS_SRC \<noteq> APP_VIEWS_DIR"
    by (simp add: VIEWS_SRC_def APP_VIEWS_DIR_def RESOURCES_SRC_def APP_RESOURCES_DIR_def)
  have h5: "\<forall>f\<in>set ?names. isfile fs (VIEWS_SRC @ [f]) \<and> \<not> isdir fs (APP_VIEWS_DIR @ [f])"
  proof
    fix f assume "f \<in> set ?names"
    then obtain n where n: "(f, n) \<in> set (children fs VIEWS_SRC)" by auto
    with ch have "n \<noteq> Dir" "\<not> isdir fs (APP_VIEWS_DIR @ [f])" by auto
    moreover have "map_of fs (VIEWS_SRC @ [f]) = Some n" using n children_set [OF d] by simp
    ultimately show "isfile fs (VIEWS_SRC @ [f]) \<and> \<not> isdir fs (APP_VIEWS_DIR @ [f])"
      by (cases n) (simp_all add: isfile_def)
  qed
  from move_each_ok [OF wf D ne dn h5] obtain fs' where fs':
    "move_each VIEWS_SRC APP_VIEWS_DIR ?names fs = Inr fs'"
    "\<And>f. f \<in> set ?names \<Longrightarrow> map_of fs' (APP_VIEWS_DIR @ [f]) = map_of fs (VIEWS_SRC @ [f])
        \<and> map_of fs' (VIEWS_SRC @ [f]) = None"
    by blast
  have run: "move_views ROOT_DIR fs
        = Inr (fs', [''Moved Views to '' @ path_str ROOT_DIR APP_VIEWS_DIR])"
    using V ls fs'(1) by (simp add: move_views_def path_exists_def isdir_def)
  have "map_of fs' (APP_VIEWS_DIR @ [f]) = Some (File c) \<and> map_of fs' (VIEWS_SRC @ [f]) = None"
    if "map_of fs (VIEWS_SRC @ [f]) = Some (File c)" for f c
  proof -
    from that have "(f, File c) \<in> set (children fs VIEWS_SRC)" using children_set [OF d] by simp
    then have "f \<in> set ?names" by force
    from fs'(2) [OF this] that show ?thesis by simp
  qed
  with run show ?thesis by blast
qed

lemma move_openapi_ok:
  assumes wf: "wf_fs fs" and s: "map_of fs OPENAPI_SRC = Some (File new)"
    and t: "map_of fs OPENAPI_DEST = Some (File old)"
  shows "move_openapi ROOT_DIR fs
      = Inr (AList.update OPENAPI_DEST (File new) (AList.delete OPENAPI_SRC fs),
             [''Moved openapi.yml to '' @ path_str ROOT_DIR OPENAPI_DEST])"
proof -
  have ne: "OPENAPI_DEST \<noteq> []" by (simp add: OPENAPI_DEST_def)
  have "map_of fs (butlast OPENAPI_DEST) = Some Dir" using wf_parent [OF wf t ne] .
  then have "parent_error fs OPENAPI_DEST = None" using wf ne by (intro parent_error_None)
  then show ?thesis
    using s t ne by (simp add: move_openapi_def path_exists_def move_def move_to_def isdir_def)
qed

section \<open>TreeMerger: the claims\<close>

text \<open>
  C7, as the code has it. Let the move of the nested resources meet no obstacle
  (\<open>mergeable\<close>: \<open>nested\<close> is a directory inside \<open>sources\<close>, \<open>resources\<close> is a directory,
  no entry of the nested tree has its place below \<open>resources\<close> inside \<open>sources\<close>, no file
  stands at the place of a nested directory and no directory at the place of a nested
  file), and let \<open>resources\<close> hold no regular file outside \<open>sources\<close>; directories, such
  as the \<^verbatim>\<open>Views\<close> that step 1 makes, it may hold. Then the move ends normally with its
  message; afterwards the files below \<open>resources\<close> are exactly the files that were below
  \<open>nested\<close>, each at the same relative path and with the same text; nothing is left of
  \<open>sources\<close>, so nothing of \<open>nested\<close>; and a second run changes nothing and prints that no
  nested resources were found. Whenever nothing at all exists at the path \<open>nested\<close>, the
  step changes nothing and prints that message, without an exception.
\<close>

theorem merge_into_destination_without_files:
  "(mergeable fs nested resources sources
      \<and> (\<forall>(p, n)\<in>set fs. prefix resources p \<and> \<not> prefix sources p \<longrightarrow> n = Dir) \<longrightarrow>
    (\<exists>fs'. move_nested_resources prep ROOT_DIR nested resources sources fs
          = Some (Inr (fs', [''Moved resources from '' @ path_str ROOT_DIR nested @ '' to ''
                             @ path_str ROOT_DIR resources @ ''.'']))
       \<and> (\<forall>rel c. map_of fs' (resources @ rel) = Some (File c)
                   \<longleftrightarrow> map_of fs (nested @ rel) = Some (File c))
       \<and> (\<forall>q. prefix sources q \<longrightarrow> map_of fs' q = None)
       \<and> move_nested_resources prep ROOT_DIR nested resources sources fs'
          = Some (Inr (fs', [''No nested resources found '' @ prep @ '' ''
                             @ path_str ROOT_DIR nested @ ''.'']))))
   \<and> (\<not> path_exists fs nested \<longrightarrow>
        move_nested_resources prep ROOT_DIR nested resources sources fs
          = Some (Inr (fs, [''No nested resources found '' @ prep @ '' ''
                            @ path_str ROOT_DIR nested @ ''.''])))"
proof (intro conjI impI)
  assume a: "mergeable fs nested resources sources
      \<and> (\<forall>(p, n)\<in>set fs. prefix resources p \<and> \<not> prefix sources p \<longrightarrow> n = Dir)"
  then have G: "mergeable fs nested resources sources" by simp
  note gf = mergeable_facts [OF G]
  have nofile: "map_of fs (resources @ rel) \<noteq> Some (File c)"
    if "\<not> prefix sources (resources @ rel)" for rel c
  proof
    assume "map_of fs (resources @ rel) = Some (File c)"
    then have "(resources @ rel, File c) \<in> set fs" by (rule map_of_SomeD)
    with a that show False by fastforce
  qed
  from merge_general [OF G, of prep ROOT_DIR] obtain fs' where fs':
    "move_nested_resources prep ROOT_DIR nested resources sources fs
        = Some (Inr (fs', [''Moved resources from '' @ path_str ROOT_DIR nested @ '' to ''
                           @ path_str ROOT_DIR resources @ ''.'']))"
    "\<And>q. prefix sources q \<Longrightarrow> map_of fs' q = None"
    "\<And>r c. map_of fs (nested @ r) = Some (File c) \<Longrightarrow> map_of fs' (resources @ r) = Some (File c)"
    "\<And>q. \<not> prefix sources q \<Longrightarrow>
          \<not> (\<exists>r c. q = resources @ r \<and> map_of fs (nested @ r) = Some (File c)) \<Longrightarrow>
            map_of fs' q = map_of fs q
            \<or> (map_of fs q = None \<and> map_of fs' q = Some Dir
                \<and> (\<exists>r. q = resources @ r \<and> map_of fs (nested @ r) = Some Dir))"
    by blast
  have bck: "map_of fs (nested @ rel) = Some (File c)"
    if m: "map_of fs' (resources @ rel) = Some (File c)" for rel c
  proof (rule ccontr)
    assume n: "map_of fs (nested @ rel) \<noteq> Some (File c)"
    have nS: "\<not> prefix sources (resources @ rel)" using fs'(2) m by auto
    have "\<not> (\<exists>r c. resources @ rel = resources @ r \<and> map_of fs (nested @ r) = Some (File c))"
    proof
      assume "\<exists>r c. resources @ rel = resources @ r \<and> map_of fs (nested @ r) = Some (File c)"
      then obtain c' where c': "map_of fs (nested @ rel) = Some (File c')" by auto
      from fs'(3) [OF this] m have "c' = c" by simp
      with c' n show False by simp
    qed
    from fs'(4) [OF nS this] m have "map_of fs (resources @ rel) = Some (File c)" by auto
    with nofile [OF nS, of c] show False by simp
  qed
  have "\<not> path_exists fs' nested" using fs'(2) [of nested] gf(4) by (simp add: path_exists_def)
  then have again: "move_nested_resources prep ROOT_DIR nested resources sources fs'
          = Some (Inr (fs', [''No nested resources found '' @ prep @ '' ''
                             @ path_str ROOT_DIR nested @ ''.'']))"
    by (simp add: move_nested_resources_def)
  from fs'(1) fs'(2) fs'(3) bck again
  show "\<exists>fs'. move_nested_resources prep ROOT_DIR nested resources sources fs
          = Some (Inr (fs', [''Moved resources from '' @ path_str ROOT_DIR nested @ '' to ''
                             @ path_str ROOT_DIR resources @ ''.'']))
       \<and> (\<forall>rel c. map_of fs' (resources @ rel) = Some (File c)
                   \<longleftrightarrow> map_of fs (nested @ rel) = Some (File c))
       \<and> (\<forall>q. prefix sources q \<longrightarrow> map_of fs' q = None)
       \<and> move_nested_resources prep ROOT_DIR nested resources sources fs'
          = Some (Inr (fs', [''No nested resources found '' @ prep @ '' ''
                             @ path_str ROOT_DIR nested @ ''.'']))"
    by blast
next
  assume "\<not> path_exists fs nested"
  then show "move_nested_resources prep ROOT_DIR nested resources sources fs
          = Some (Inr (fs, [''No nested resources found '' @ prep @ '' ''
                            @ path_str ROOT_DIR nested @ ''.'']))"
    by (simp add: move_nested_resources_def)
qed

text \<open>
  The theorem on a run of each script. fix\_resource\_conflicts.py: step 1 adds
  \<^verbatim>\<open>Resources/Views\<close> to the project \<open>nested_tree\<close>, step 2 then moves the two nested files.
  fix\_nested\_resources.py: the project \<open>nested_inside_tree\<close>, as step 1 leaves it.
\<close>

theorem merge_into_destination_without_files_witness:
  "makedirs nested_tree VIEWS_DIR = Inr (nested_tree @ [(VIEWS_DIR, Dir)])
   \<and> mergeable (nested_tree @ [(VIEWS_DIR, Dir)])
       [''Sources'', ''App'', ''Sources'', ''App'', ''Resources''] [''Sources'', ''App'', ''Resources'']
       [''Sources'', ''App'', ''Sources'']
   \<and> filter (\<lambda>(p, n). prefix [''Sources'', ''App'', ''Resources''] p
                \<and> \<not> prefix [''Sources'', ''App'', ''Sources''] p \<and> n \<noteq> Dir)
        (nested_tree @ [(VIEWS_DIR, Dir)]) = []
   \<and> (\<exists>fs'. fix_resource_conflicts_move ''/proj'' (nested_tree @ [(VIEWS_DIR, Dir)])
          = Some (Inr (fs', [''Moved resources from /proj/Sources/App/Sources/App/Resources to /proj/Sources/App/Resources.'']))
       \<and> (\<forall>rel c. map_of fs' ([''Sources'', ''App'', ''Resources''] @ rel) = Some (File c)
            \<longleftrightarrow> map_of (nested_tree @ [(VIEWS_DIR, Dir)])
                  ([''Sources'', ''App'', ''Sources'', ''App'', ''Resources''] @ rel)
                = Some (File c))
       \<and> (\<forall>q. prefix [''Sources'', ''App'', ''Sources''] q \<longrightarrow> map_of fs' q = None)
       \<and> fix_resource_conflicts_move ''/proj'' fs'
          = Some (Inr (fs', [''No nested resources found in /proj/Sources/App/Sources/App/Resources.''])))
   \<and> fix_resource_conflicts_steps ''/proj'' nested_tree
       = Some (Inr ([([], Dir), ([''Sources''], Dir), ([''Sources'', ''App''], Dir),
                     ([''Sources'', ''App'', ''Resources''], Dir),
                     ([''Sources'', ''App'', ''Resources'', ''Views''], Dir),
                     ([''Sources'', ''App'', ''Resources'', ''openapi.yml''], File ''openapi: 3.0.0''),
                     ([''Sources'', ''App'', ''Resources'', ''Views'', ''redoc.leaf''],
                      File ''<html></html>'')],
                    [''Moved resources from /proj/Sources/App/Sources/App/Resources to /proj/Sources/App/Resources.'']))
   \<and> mergeable nested_inside_tree (CORRECT_RESOURCES_DIR @ [''Sources'', ''App'', ''Resources''])
       CORRECT_RESOURCES_DIR (CORRECT_RESOURCES_DIR @ [''Sources''])
   \<and> (\<exists>fs'. fix_nested_resources_move ''/proj'' nested_inside_tree
          = Some (Inr (fs', [''Moved resources from /proj/Sources/App/Resources/Sources/App/Resources to /proj/Sources/App/Resources.'']))
       \<and> (\<forall>rel c. map_of fs' (CORRECT_RESOURCES_DIR @ rel) = Some (File c)
            \<longleftrightarrow> map_of nested_inside_tree
                  ((CORRECT_RESOURCES_DIR @ [''Sources'', ''App'', ''Resources'']) @ rel)
                = Some (File c)))
   \<and> fix_nested_resources_move ''/proj'' nested_inside_tree
       = Some (Inr ([([], Dir), ([''Sources''], Dir), ([''Sources'', ''App''], Dir),
                     ([''Sources'', ''App'', ''Resources''], Dir),
                     ([''Sources'', ''App'', ''Resources'', ''Views''], Dir),
                     ([''Sources'', ''App'', ''Resources'', ''openapi.yml''], File ''openapi: 3.0.0'')],
                    [''Moved resources from /proj/Sources/App/Resources/Sources/App/Resources to /proj/Sources/App/Resources.'']))
   \<and> fix_nested_resources_move ''/proj'' [([], Dir)]
       = Some (Inr ([([], Dir)],
                    [''No nested resources found at /proj/Sources/App/Resources/Sources/App/Resources.'']))"
proof -
  let ?T = "nested_tree @ [(VIEWS_DIR, Dir)]"
  have s1: "makedirs nested_tree VIEWS_DIR = Inr ?T"
    by (simp add: makedirs_def VIEWS_DIR_def APP_DIR_def nested_tree_def)
  have g: "mergeable ?T [''Sources'', ''App'', ''Sources'', ''App'', ''Resources'']
       [''Sources'', ''App'', ''Resources''] [''Sources'', ''App'', ''Sources'']"
    by (simp add: mergeable_def wf_fs_def isdir_def isfile_def relpath_def nested_tree_def
          VIEWS_DIR_def APP_DIR_def)
  have nf: "\<forall>(p, n)\<in>set ?T. prefix [''Sources'', ''App'', ''Resources''] p
                \<and> \<not> prefix [''Sources'', ''App'', ''Sources''] p \<longrightarrow> n = Dir"
    by (simp add: nested_tree_def VIEWS_DIR_def APP_DIR_def)
  have nf': "filter (\<lambda>(p, n). prefix [''Sources'', ''App'', ''Resources''] p
                \<and> \<not> prefix [''Sources'', ''App'', ''Sources''] p \<and> n \<noteq> Dir) ?T = []"
    by (simp add: nested_tree_def VIEWS_DIR_def APP_DIR_def)
  have e: "fix_resource_conflicts_steps ''/proj'' nested_tree
       = Some (Inr ([([], Dir), ([''Sources''], Dir), ([''Sources'', ''App''], Dir),
                     ([''Sources'', ''App'', ''Resources''], Dir),
                     ([''Sources'', ''App'', ''Resources'', ''Views''], Dir),
                     ([''Sources'', ''App'', ''Resources'', ''openapi.yml''], File ''openapi: 3.0.0''),
                     ([''Sources'', ''App'', ''Resources'', ''Views'', ''redoc.leaf''],
                      File ''<html></html>'')],
                    [''Moved resources from /proj/Sources/App/Sources/App/Resources to /proj/Sources/App/Resources.'']))"
    by (simp add: fix_resource_conflicts_steps_def VIEWS_DIR_def
        fix_resource_conflicts_move_def move_nested_resources_def APP_DIR_def
        path_exists_def nested_tree_def walk_loop.simps scandir_def isdir_def children_def
        makedirs_def move_def move_to_def parent_error_def relpath_def rmtree_def path_str_def
        join_def)
  have g2: "mergeable nested_inside_tree (CORRECT_RESOURCES_DIR @ [''Sources'', ''App'', ''Resources''])
       CORRECT_RESOURCES_DIR (CORRECT_RESOURCES_DIR @ [''Sources''])"
    by (simp add: mergeable_def wf_fs_def isdir_def isfile_def relpath_def nested_inside_tree_def
          CORRECT_RESOURCES_DIR_def)
  have nf2: "\<forall>(p, n)\<in>set nested_inside_tree. prefix CORRECT_RESOURCES_DIR p
                \<and> \<not> prefix (CORRECT_RESOURCES_DIR @ [''Sources'']) p \<longrightarrow> n = Dir"
    by (simp add: nested_inside_tree_def CORRECT_RESOURCES_DIR_def)
  have e2: "fix_nested_resources_move ''/proj'' nested_inside_tree
       = Some (Inr ([([], Dir), ([''Sources''], Dir), ([''Sources'', ''App''], Dir),
                     ([''Sources'', ''App'', ''Resources''], Dir),
                     ([''Sources'', ''App'', ''Resources'', ''Views''], Dir),
                     ([''Sources'', ''App'', ''Resources'', ''openapi.yml''], File ''openapi: 3.0.0'')],
                    [''Moved resources from /proj/Sources/App/Resources/Sources/App/Resources to /proj/Sources/App/Resources.'']))"
    by (simp add: fix_nested_resources_move_def move_nested_resources_def CORRECT_RESOURCES_DIR_def
        path_exists_def nested_inside_tree_def walk_loop.simps scandir_def isdir_def children_def
        makedirs_def move_def move_to_def parent_error_def relpath_def rmtree_def path_str_def
        join_def)
  from merge_into_destination_without_files [of ?T
      "[''Sources'', ''App'', ''Sources'', ''App'', ''Resources'']" "[''Sources'', ''App'', ''Resources'']"
      "[''Sources'', ''App'', ''Sources'']" "''in''" "''/proj''", THEN conjunct1, rule_format,
      OF conjI, OF g nf]
  have r1: "\<exists>fs'. fix_resource_conflicts_move ''/proj'' ?T
          = Some (Inr (fs', [''Moved resources from /proj/Sources/App/Sources/App/Resources to /proj/Sources/App/Resources.'']))
       \<and> (\<forall>rel c. map_of fs' ([''Sources'', ''App'', ''Resources''] @ rel) = Some (File c)
            \<longleftrightarrow> map_of ?T ([''Sources'', ''App'', ''Sources'', ''App'', ''Resources''] @ rel)
                = Some (File c))
       \<and> (\<forall>q. prefix [''Sources'', ''App'', ''Sources''] q \<longrightarrow> map_of fs' q = None)
       \<and> fix_resource_conflicts_move ''/proj'' fs'
          = Some (Inr (fs', [''No nested resources found in /proj/Sources/App/Sources/App/Resources.'']))"
    by (simp add: fix_resource_conflicts_move_def APP_DIR_def path_str_def join_def)
  from merge_into_destination_without_files [of nested_inside_tree
      "CORRECT_RESOURCES_DIR @ [''Sources'', ''App'', ''Resources'']" CORRECT_RESOURCES_DIR
      "CORRECT_RESOURCES_DIR @ [''Sources'']" "''at''" "''/proj''", THEN conjunct1, rule_format,
      OF conjI, OF g2 nf2]
  have r2: "\<exists>fs'. fix_nested_resources_move ''/proj'' nested_inside_tree
          = Some (Inr (fs', [''Moved resources from /proj/Sources/App/Resources/Sources/App/Resources to /proj/Sources/App/Resources.'']))
       \<and> (\<forall>rel c. map_of fs' (CORRECT_RESOURCES_DIR @ rel) = Some (File c)
            \<longleftrightarrow> map_of nested_inside_tree
                  ((CORRECT_RESOURCES_DIR @ [''Sources'', ''App'', ''Resources'']) @ rel)
                = Some (File c))"
    by (auto simp: fix_nested_resources_move_def CORRECT_RESOURCES_DIR_def path_str_def join_def)
  from merge_into_destination_without_files [of "[([], Dir)]"
      "CORRECT_RESOURCES_DIR @ [''Sources'', ''App'', ''Resources'']" CORRECT_RESOURCES_DIR
      "CORRECT_RESOURCES_DIR @ [''Sources'']" "''at''" "''/proj''", THEN conjunct2]
  have r3: "fix_nested_resources_move ''/proj'' [([], Dir)]
       = Some (Inr ([([], Dir)],
                    [''No nested resources found at /proj/Sources/App/Resources/Sources/App/Resources.'']))"
    by (simp add: fix_nested_resources_move_def CORRECT_RESOURCES_DIR_def path_exists_def
          path_str_def join_def)
  from s1 g nf' r1 e g2 r2 e2 r3 show ?thesis by blast
qed

text \<open>
  C7 as stated fails on two projects of fix\_resource\_conflicts.py. In the first the
  right resources directory does not exist before the script starts; step 1 makes it
  with \<^verbatim>\<open>Views\<close> in it, and step 2 puts the nested file \<^verbatim>\<open>Views\<close> into that directory, at
  \<^verbatim>\<open>Views/Views\<close>, which is not its relative path. In the second no nested directory
  exists, a regular file stands at its path: the step prints that it moved resources and
  removes \<^verbatim>\<open>Sources/App/Sources\<close> with the file \<^verbatim>\<open>main.swift\<close> in it.
\<close>

theorem merge_equivalent_paths_counterexample:
  "\<not> path_exists views_clash_tree [''Sources'', ''App'', ''Resources'']
   \<and> map_of views_clash_tree [''Sources'', ''App'', ''Sources'', ''App'', ''Resources'', ''Views'']
       = Some (File ''v'')
   \<and> fix_resource_conflicts_steps ''/proj'' views_clash_tree
       = Some (Inr ([([], Dir), ([''Sources''], Dir), ([''Sources'', ''App''], Dir),
                     ([''Sources'', ''App'', ''Resources''], Dir),
                     ([''Sources'', ''App'', ''Resources'', ''Views''], Dir),
                     ([''Sources'', ''App'', ''Resources'', ''Views'', ''Views''], File ''v'')],
                    [''Moved resources from /proj/Sources/App/Sources/App/Resources to /proj/Sources/App/Resources.'']))
   \<and> \<not> isdir nested_file_tree [''Sources'', ''App'', ''Sources'', ''App'', ''Resources'']
   \<and> fix_resource_conflicts_move ''/proj'' nested_file_tree
       = Some (Inr ([([], Dir), ([''Sources''], Dir), ([''Sources'', ''App''], Dir),
                     ([''Sources'', ''App'', ''Resources''], Dir)],
                    [''Moved resources from /proj/Sources/App/Sources/App/Resources to /proj/Sources/App/Resources.'']))"
  by (simp add: fix_resource_conflicts_steps_def VIEWS_DIR_def
        fix_resource_conflicts_move_def move_nested_resources_def APP_DIR_def
        path_exists_def views_clash_tree_def nested_file_tree_def walk_loop.simps scandir_def
        isdir_def children_def makedirs_def move_def move_to_def parent_error_def relpath_def
        rmtree_def path_str_def join_def)

text \<open>
  C2, as the code has it. No script tests whether a file is already at the place to which
  it moves one, and none reports a conflict. In the walk of fix\_nested\_resources.py and
  fix\_resource\_conflicts.py: when the move meets no obstacle (\<open>mergeable\<close>: \<open>nested\<close> is a
  directory inside \<open>sources\<close>, \<open>resources\<close> is a directory, no entry of the nested tree
  has its place below \<open>resources\<close> inside \<open>sources\<close>, no file stands at the place of a
  nested directory and no directory at the place of a nested file), and a file of the
  nested tree and a file below \<open>resources\<close> have the same relative path, then the move
  ends normally with its usual message and nothing else; afterwards the path below
  \<open>resources\<close> holds the text of the nested file, the text that was there is lost, and
  the nested file is gone. In fix\_resources.py: when the old and the new \<^verbatim>\<open>Views\<close> are
  directories, every entry of the old one is a regular file and none has a directory at
  its new place, a file of the old \<^verbatim>\<open>Views\<close> replaces the file of the same name in the
  new one in that way; and so does the old \<^verbatim>\<open>openapi.yml\<close> with the new one.
\<close>

theorem merge_overwrites_destination_file:
  "(mergeable fs nested resources sources
     \<and> map_of fs (nested @ rel) = Some (File new)
     \<and> map_of fs (resources @ rel) = Some (File old) \<longrightarrow>
     (\<exists>fs'. move_nested_resources prep ROOT_DIR nested resources sources fs
            = Some (Inr (fs', [''Moved resources from '' @ path_str ROOT_DIR nested @ '' to ''
                               @ path_str ROOT_DIR resources @ ''.'']))
        \<and> map_of fs' (resources @ rel) = Some (File new)
        \<and> map_of fs' (nested @ rel) = None))
   \<and> (wf_fs fs \<and> isdir fs VIEWS_SRC \<and> isdir fs APP_VIEWS_DIR
       \<and> (\<forall>(name, n)\<in>set (children fs VIEWS_SRC).
              n \<noteq> Dir \<and> \<not> isdir fs (APP_VIEWS_DIR @ [name]))
       \<and> map_of fs (VIEWS_SRC @ [leaf]) = Some (File new)
       \<and> map_of fs (APP_VIEWS_DIR @ [leaf]) = Some (File old) \<longrightarrow>
     (\<exists>fs'. move_views ROOT_DIR fs
            = Inr (fs', [''Moved Views to '' @ path_str ROOT_DIR APP_VIEWS_DIR])
        \<and> map_of fs' (APP_VIEWS_DIR @ [leaf]) = Some (File new)
        \<and> map_of fs' (VIEWS_SRC @ [leaf]) = None))
   \<and> (wf_fs fs \<and> map_of fs OPENAPI_SRC = Some (File new)
       \<and> map_of fs OPENAPI_DEST = Some (File old) \<longrightarrow>
     move_openapi ROOT_DIR fs
       = Inr (AList.update OPENAPI_DEST (File new) (AList.delete OPENAPI_SRC fs),
              [''Moved openapi.yml to '' @ path_str ROOT_DIR OPENAPI_DEST]))"
proof (intro conjI impI)
  assume a: "mergeable fs nested resources sources
   \<and> map_of fs (nested @ rel) = Some (File new)
   \<and> map_of fs (resources @ rel) = Some (File old)"
  then have G: "mergeable fs nested resources sources" by simp
  from merge_general [OF G, of prep ROOT_DIR] obtain fs' where fs':
    "move_nested_resources prep ROOT_DIR nested resources sources fs
        = Some (Inr (fs', [''Moved resources from '' @ path_str ROOT_DIR nested @ '' to ''
                           @ path_str ROOT_DIR resources @ ''.'']))"
    "\<And>q. prefix sources q \<Longrightarrow> map_of fs' q = None"
    "\<And>r c. map_of fs (nested @ r) = Some (File c) \<Longrightarrow> map_of fs' (resources @ r) = Some (File c)"
    by blast
  have "prefix sources (nested @ rel)"
    using mergeable_facts(4) [OF G] by (meson prefix_order.trans prefixI)
  with fs' a show "\<exists>fs'. move_nested_resources prep ROOT_DIR nested resources sources fs
          = Some (Inr (fs', [''Moved resources from '' @ path_str ROOT_DIR nested @ '' to ''
                             @ path_str ROOT_DIR resources @ ''.'']))
      \<and> map_of fs' (resources @ rel) = Some (File new)
      \<and> map_of fs' (nested @ rel) = None"
    by blast
next
  assume a: "wf_fs fs \<and> isdir fs VIEWS_SRC \<and> isdir fs APP_VIEWS_DIR
       \<and> (\<forall>(name, n)\<in>set (children fs VIEWS_SRC).
              n \<noteq> Dir \<and> \<not> isdir fs (APP_VIEWS_DIR @ [name]))
       \<and> map_of fs (VIEWS_SRC @ [leaf]) = Some (File new)
       \<and> map_of fs (APP_VIEWS_DIR @ [leaf]) = Some (File old)"
  then have "\<exists>fs'. move_views ROOT_DIR fs
        = Inr (fs', [''Moved Views to '' @ path_str ROOT_DIR APP_VIEWS_DIR])
     \<and> (\<forall>f c. map_of fs (VIEWS_SRC @ [f]) = Some (File c) \<longrightarrow>
           map_of fs' (APP_VIEWS_DIR @ [f]) = Some (File c) \<and> map_of fs' (VIEWS_SRC @ [f]) = None)"
    by (intro move_views_ok) simp_all
  with a show "\<exists>fs'. move_views ROOT_DIR fs
            = Inr (fs', [''Moved Views to '' @ path_str ROOT_DIR APP_VIEWS_DIR])
        \<and> map_of fs' (APP_VIEWS_DIR @ [leaf]) = Some (File new)
        \<and> map_of fs' (VIEWS_SRC @ [leaf]) = None"
    by blast
next
  assume "wf_fs fs \<and> map_of fs OPENAPI_SRC = Some (File new)
       \<and> map_of fs OPENAPI_DEST = Some (File old)"
  then show "move_openapi ROOT_DIR fs
       = Inr (AList.update OPENAPI_DEST (File new) (AList.delete OPENAPI_SRC fs),
              [''Moved openapi.yml to '' @ path_str ROOT_DIR OPENAPI_DEST])"
    by (intro move_openapi_ok) simp_all
qed

text \<open>
  The theorem on the project \<open>conflict_tree\<close> of fix\_nested\_resources.py and on the
  project \<open>old_resources_tree\<close> of fix\_resources.py.
\<close>

theorem merge_overwrites_destination_file_witness:
  "mergeable conflict_tree (CORRECT_RESOURCES_DIR @ [''Sources'', ''App'', ''Resources''])
     CORRECT_RESOURCES_DIR (CORRECT_RESOURCES_DIR @ [''Sources''])
   \<and> map_of conflict_tree (CORRECT_RESOURCES_DIR @ [''Sources'', ''App'', ''Resources''] @ [''openapi.yml''])
       = Some (File ''new'')
   \<and> map_of conflict_tree (CORRECT_RESOURCES_DIR @ [''openapi.yml'']) = Some (File ''old'')
   \<and> (\<exists>fs'. fix_nested_resources_move ''/proj'' conflict_tree
          = Some (Inr (fs', [''Moved resources from /proj/Sources/App/Resources/Sources/App/Resources to /proj/Sources/App/Resources.'']))
        \<and> map_of fs' (CORRECT_RESOURCES_DIR @ [''openapi.yml'']) = Some (File ''new'')
        \<and> map_of fs' (CORRECT_RESOURCES_DIR @ [''Sources'', ''App'', ''Resources''] @ [''openapi.yml''])
            = None)
   \<and> wf_fs old_resources_tree
   \<and> map_of old_resources_tree (VIEWS_SRC @ [''index.leaf'']) = Some (File ''new view'')
   \<and> map_of old_resources_tree (APP_VIEWS_DIR @ [''index.leaf'']) = Some (File ''old view'')
   \<and> (\<exists>fs'. move_views ''/proj'' old_resources_tree
          = Inr (fs', [''Moved Views to /proj/Sources/App/Resources/Views''])
        \<and> map_of fs' (APP_VIEWS_DIR @ [''index.leaf'']) = Some (File ''new view'')
        \<and> map_of fs' (VIEWS_SRC @ [''index.leaf'']) = None)
   \<and> map_of old_resources_tree OPENAPI_SRC = Some (File ''new'')
   \<and> map_of old_resources_tree OPENAPI_DEST = Some (File ''old'')
   \<and> move_openapi ''/proj'' old_resources_tree
       = Inr ([([], Dir), ([''Resources''], Dir), ([''Resources'', ''Views''], Dir),
               ([''Resources'', ''Views'', ''index.leaf''], File ''new view''),
               ([''Sources''], Dir), ([''Sources'', ''App''], Dir),
               ([''Sources'', ''App'', ''Resources''], Dir),
               ([''Sources'', ''App'', ''Resources'', ''Views''], Dir),
               ([''Sources'', ''App'', ''Resources'', ''Views'', ''index.leaf''], File ''old view''),
               ([''Sources'', ''App'', ''Resources'', ''openapi.yml''], File ''new'')],
              [''Moved openapi.yml to /proj/Sources/App/Resources/openapi.yml''])"
proof -
  have h: "mergeable conflict_tree (CORRECT_RESOURCES_DIR @ [''Sources'', ''App'', ''Resources''])
       CORRECT_RESOURCES_DIR (CORRECT_RESOURCES_DIR @ [''Sources''])
     \<and> map_of conflict_tree ((CORRECT_RESOURCES_DIR @ [''Sources'', ''App'', ''Resources'']) @ [''openapi.yml''])
       = Some (File ''new'')
     \<and> map_of conflict_tree (CORRECT_RESOURCES_DIR @ [''openapi.yml'']) = Some (File ''old'')"
    by (simp add: mergeable_def wf_fs_def isdir_def isfile_def relpath_def conflict_tree_def
          CORRECT_RESOURCES_DIR_def)
  from merge_overwrites_destination_file [where fs = conflict_tree
      and nested = "CORRECT_RESOURCES_DIR @ [''Sources'', ''App'', ''Resources'']"
      and resources = CORRECT_RESOURCES_DIR and sources = "CORRECT_RESOURCES_DIR @ [''Sources'']"
      and rel = "[''openapi.yml'']" and new = "''new''" and old = "''old''" and prep = "''at''"
      and ROOT_DIR = "''/proj''", THEN conjunct1, rule_format, OF h]
  have r1: "\<exists>fs'. fix_nested_resources_move ''/proj'' conflict_tree
          = Some (Inr (fs', [''Moved resources from /proj/Sources/App/Resources/Sources/App/Resources to /proj/Sources/App/Resources.'']))
        \<and> map_of fs' (CORRECT_RESOURCES_DIR @ [''openapi.yml'']) = Some (File ''new'')
        \<and> map_of fs' (CORRECT_RESOURCES_DIR @ [''Sources'', ''App'', ''Resources''] @ [''openapi.yml''])
            = None"
    by (simp add: fix_nested_resources_move_def path_str_def join_def CORRECT_RESOURCES_DIR_def)
  have wf: "wf_fs old_resources_tree" by (simp add: wf_fs_def old_resources_tree_def)
  have v: "map_of old_resources_tree (VIEWS_SRC @ [''index.leaf'']) = Some (File ''new view'')"
    "map_of old_resources_tree (APP_VIEWS_DIR @ [''index.leaf'']) = Some (File ''old view'')"
    "map_of old_resources_tree OPENAPI_SRC = Some (File ''new'')"
    "map_of old_resources_tree OPENAPI_DEST = Some (File ''old'')"
    by (simp_all add: old_resources_tree_def VIEWS_SRC_def APP_VIEWS_DIR_def OPENAPI_SRC_def
          OPENAPI_DEST_def RESOURCES_SRC_def APP_RESOURCES_DIR_def)
  have h2: "wf_fs old_resources_tree \<and> isdir old_resources_tree VIEWS_SRC
       \<and> isdir old_resources_tree APP_VIEWS_DIR
       \<and> (\<forall>(name, n)\<in>set (children old_resources_tree VIEWS_SRC).
              n \<noteq> Dir \<and> \<not> isdir old_resources_tree (APP_VIEWS_DIR @ [name]))
       \<and> map_of old_resources_tree (VIEWS_SRC @ [''index.leaf'']) = Some (File ''new view'')
       \<and> map_of old_resources_tree (APP_VIEWS_DIR @ [''index.leaf'']) = Some (File ''old view'')"
    using wf v
    by (simp add: isdir_def children_def old_resources_tree_def VIEWS_SRC_def APP_VIEWS_DIR_def
          RESOURCES_SRC_def APP_RESOURCES_DIR_def)
  from merge_overwrites_destination_file [where fs = old_resources_tree
      and leaf = "''index.leaf''" and new = "''new view''" and old = "''old view''"
      and ROOT_DIR = "''/proj''", THEN conjunct2, THEN conjunct1, rule_format, OF h2]
  have r2: "\<exists>fs'. move_views ''/proj'' old_resources_tree
          = Inr (fs', [''Moved Views to /proj/Sources/App/Resources/Views''])
        \<and> map_of fs' (APP_VIEWS_DIR @ [''index.leaf'']) = Some (File ''new view'')
        \<and> map_of fs' (VIEWS_SRC @ [''index.leaf'']) = None"
    by (simp add: path_str_def join_def APP_VIEWS_DIR_def APP_RESOURCES_DIR_def)
  from merge_overwrites_destination_file [where fs = old_resources_tree
      and new = "''new''" and old = "''old''" and ROOT_DIR = "''/proj''",
      THEN conjunct2, THEN conjunct2, rule_format, OF conjI, OF wf conjI, OF v(3) v(4)]
  have r3: "move_openapi ''/proj'' old_resources_tree
       = Inr ([([], Dir), ([''Resources''], Dir), ([''Resources'', ''Views''], Dir),
               ([''Resources'', ''Views'', ''index.leaf''], File ''new view''),
               ([''Sources''], Dir), ([''Sources'', ''App''], Dir),
               ([''Sources'', ''App'', ''Resources''], Dir),
               ([''Sources'', ''App'', ''Resources'', ''Views''], Dir),
               ([''Sources'', ''App'', ''Resources'', ''Views'', ''index.leaf''], File ''old view''),
               ([''Sources'', ''App'', ''Resources'', ''openapi.yml''], File ''new'')],
              [''Moved openapi.yml to /proj/Sources/App/Resources/openapi.yml''])"
    by (simp add: old_resources_tree_def OPENAPI_SRC_def OPENAPI_DEST_def RESOURCES_SRC_def
          APP_RESOURCES_DIR_def path_str_def join_def)
  from h r1 wf v r2 r3 show ?thesis by simp
qed

text \<open>
  C2 as stated fails on the project with the two files \<^verbatim>\<open>openapi.yml\<close>: the move reports no
  conflict, the file in the right place now has the text of the nested one, and the nested
  one is removed. It fails in the same way on the project of fix\_resources.py.
\<close>

theorem merge_conflict_counterexample:
  "map_of conflict_tree (CORRECT_RESOURCES_DIR @ [''Sources'', ''App'', ''Resources'', ''openapi.yml''])
     = Some (File ''new'')
   \<and> map_of conflict_tree (CORRECT_RESOURCES_DIR @ [''openapi.yml'']) = Some (File ''old'')
   \<and> fix_nested_resources_move ''/proj'' conflict_tree
     = Some (Inr ([([], Dir), ([''Sources''], Dir), ([''Sources'', ''App''], Dir),
                   ([''Sources'', ''App'', ''Resources''], Dir),
                   ([''Sources'', ''App'', ''Resources'', ''openapi.yml''], File ''new'')],
                  [''Moved resources from /proj/Sources/App/Resources/Sources/App/Resources to /proj/Sources/App/Resources.'']))
   \<and> fix_resources_move ''/proj'' old_resources_tree
     = Inr ([([], Dir), ([''Resources''], Dir), ([''Resources'', ''Views''], Dir),
             ([''Sources''], Dir), ([''Sources'', ''App''], Dir),
             ([''Sources'', ''App'', ''Resources''], Dir),
             ([''Sources'', ''App'', ''Resources'', ''Views''], Dir),
             ([''Sources'', ''App'', ''Resources'', ''Views'', ''index.leaf''], File ''new view''),
             ([''Sources'', ''App'', ''Resources'', ''openapi.yml''], File ''new'')],
            [''Moved Views to /proj/Sources/App/Resources/Views'',
             ''Moved openapi.yml to /proj/Sources/App/Resources/openapi.yml''])"
  by (simp add: fix_nested_resources_move_def move_nested_resources_def CORRECT_RESOURCES_DIR_def
        path_exists_def conflict_tree_def walk_loop.simps scandir_def isdir_def children_def
        makedirs_def move_def move_to_def parent_error_def relpath_def rmtree_def path_str_def
        join_def fix_resources_move_def move_views_def move_openapi_def listdir_def
        old_resources_tree_def VIEWS_SRC_def APP_VIEWS_DIR_def OPENAPI_SRC_def OPENAPI_DEST_def
        RESOURCES_SRC_def APP_RESOURCES_DIR_def)

text \<open>
  Why \<open>mergeable\<close> asks that no place below \<open>resources\<close> lies inside \<open>sources\<close>: in
  fix\_nested\_resources.py the right directory holds the nested one, and a nested entry
  named \<^verbatim>\<open>Sources\<close> is moved into the very directory that is removed at the end.
\<close>

lemma nested_sources_entry_is_lost:
  "fix_nested_resources_move ''/proj''
     [([], Dir), ([''Sources''], Dir), ([''Sources'', ''App''], Dir),
      ([''Sources'', ''App'', ''Resources''], Dir),
      ([''Sources'', ''App'', ''Resources'', ''Sources''], Dir),
      ([''Sources'', ''App'', ''Resources'', ''Sources'', ''App''], Dir),
      ([''Sources'', ''App'', ''Resources'', ''Sources'', ''App'', ''Resources''], Dir),
      ([''Sources'', ''App'', ''Resources'', ''Sources'', ''App'', ''Resources'', ''Sources''], Dir),
      ([''Sources'', ''App'', ''Resources'', ''Sources'', ''App'', ''Resources'', ''Sources'', ''x.txt''],
       File ''x'')]
   = Some (Inr ([([], Dir), ([''Sources''], Dir), ([''Sources'', ''App''], Dir),
                 ([''Sources'', ''App'', ''Resources''], Dir)],
                [''Moved resources from /proj/Sources/App/Resources/Sources/App/Resources to /proj/Sources/App/Resources.'']))"
  by (simp add: fix_nested_resources_move_def move_nested_resources_def CORRECT_RESOURCES_DIR_def
        path_exists_def walk_loop.simps scandir_def isdir_def children_def
        makedirs_def move_def move_to_def parent_error_def relpath_def rmtree_def path_str_def
        join_def)

end
